theory Spec2Isabelle
  imports Main "HOL-Library.Word"
begin

section \<open>The board, its libraries and the passage of time\<close>

text \<open>
  The sketch \<^verbatim>\<open>src/main.cpp\<close> runs on a NodeMCU 1.0 (ESP8266): \<^verbatim>\<open>int\<close> and
  \<^verbatim>\<open>long\<close> have 32 bits, so a \<^verbatim>\<open>uint16_t\<close> operand is promoted to a signed 32-bit
  \<^verbatim>\<open>int\<close> before arithmetic and comparison, and \<^verbatim>\<open>millis()\<close> is an unsigned
  32-bit counter that wraps around.

  Everything the sketch does not define itself (the display driver, the image reader,
  the SD card, the clock, the random number generator and the button) is collected
  in an environment \<open>env\<close>; the sketch's global variables and its output are the
  \<open>world\<close>. Time is a count of instants: one instant passes during every call into
  a library and during every iteration of the \<^verbatim>\<open>for\<close> loop over the sprite slots
  (the only stretch of the sketch between two tests of the button's flag that may make
  no call), and the button's interrupt may fire during any instant.
\<close>

type_synonym u8 = "8 word"
type_synonym u16 = "16 word"
type_synonym u32 = "32 word"

text \<open>The status codes of the image reader library.\<close>

datatype ImageReturnCode =
  IMAGE_SUCCESS | IMAGE_ERR_FILE_NOT_FOUND | IMAGE_ERR_FORMAT | IMAGE_ERR_MALLOC

text \<open>
  What reaches the display, in order. The coordinates of \<open>DrawBMP\<close> and \<open>SetCursor\<close>
  are the library's \<^verbatim>\<open>int16_t\<close> parameters, kept as their 16 bits (\<open>sint\<close> reads
  them).
\<close>

datatype gfx =
  TftBegin
| FillScreen u16
| SetCursor u16 u16
| SetTextSize u8
| SetTextColor u16
| TftPrintln string
| DrawBMP string u16 u16

text \<open>What reaches the serial port: text, and the status lines of \<^verbatim>\<open>printStatus\<close>.\<close>

datatype ser = SerialBegin nat | Print string | Println string | PrintStatus ImageReturnCode

record env =
  clock :: "nat \<Rightarrow> u32"
  isr :: "nat \<Rightarrow> bool"
  rnd :: "nat \<Rightarrow> nat"
  sdBegin :: bool
  files :: "string list"
  longName :: "string \<Rightarrow> string"
  bmpDimensions :: "string \<Rightarrow> u32 \<Rightarrow> u32 \<Rightarrow> ImageReturnCode \<times> u32 \<times> u32"
  drawBMP :: "string \<Rightarrow> u16 \<Rightarrow> u16 \<Rightarrow> ImageReturnCode"

text \<open>
  \<^item> \<open>clock e k\<close>: what \<^verbatim>\<open>millis()\<close> returns when called at instant \<open>k\<close>;
  \<^item> \<open>isr e k\<close>: the button's falling edge arrives during instant \<open>k\<close>, and
    \<^verbatim>\<open>modeChangeInterupt\<close> runs;
  \<^item> \<open>rnd e k\<close>: the \<open>k\<close>-th raw value of the pseudo random generator;
  \<^item> \<open>sdBegin e\<close>: whether \<^verbatim>\<open>SD.begin\<close> mounts the card;
  \<^item> \<open>files e\<close>: the names of the root directory's entries, in the card's order;
  \<^item> \<open>longName e name\<close>: what \<^verbatim>\<open>getName\<close> leaves in the buffer when \<open>name\<close> and its
    terminator do not fit into it;
  \<^item> \<open>bmpDimensions e name width height\<close>: the status of the dimension query and
    what it leaves in its two output parameters, given what they held;
  \<^item> \<open>drawBMP e name x y\<close>: the status of drawing the image at \<open>(x, y)\<close>.
\<close>

record world =
  instant :: nat
  changeButtonState :: bool
  currentState :: u8
  prevStateChange :: u32
  draws :: nat
  tft :: "(nat \<times> gfx) list"
  serial :: "ser list"

text \<open>
  \<open>instant\<close> counts the instants that have passed and \<open>draws\<close> the random values
  consumed; \<open>changeButtonState\<close>, \<open>currentState\<close> and \<open>prevStateChange\<close> are the
  sketch's globals; \<open>tft\<close> and \<open>serial\<close> are the output so far, oldest first, and
  every call to the display is kept with the instant in which it was made.
\<close>

text \<open>
  A function whose loop may never end takes a budget of iterations. \<open>Ret r w\<close>: it
  returned \<open>r\<close> in world \<open>w\<close>. \<open>Busy w\<close>: the budget ran out while it was still
  executing, and \<open>w\<close> is the world reached by then.
\<close>

datatype 'a run = Ret 'a world | Busy world

text \<open>\<^verbatim>\<open>modeChangeInterupt\<close>: the handler only sets the flag.\<close>

definition modeChangeInterupt :: "world \<Rightarrow> world" where
  "modeChangeInterupt w = w\<lparr>changeButtonState := True\<rparr>"

text \<open>One instant passes; the handler runs if the button's edge arrives in it.\<close>

definition advance :: "env \<Rightarrow> world \<Rightarrow> world" where
  "advance e w =
     (let w1 = (if isr e (instant w) then modeChangeInterupt w else w)
      in w1\<lparr>instant := Suc (instant w)\<rparr>)"

definition millis :: "env \<Rightarrow> world \<Rightarrow> u32 \<times> world" where
  "millis e w = (clock e (instant w), advance e w)"

definition yield :: "env \<Rightarrow> world \<Rightarrow> world" where
  "yield e w = advance e w"

text \<open>
  \<^verbatim>\<open>long random(long howbig)\<close> of the Arduino core: 0 when \<open>howbig\<close> is 0, else a
  value of \<open>[0, howbig)\<close>, here the generator's next raw value reduced modulo
  \<open>howbig\<close>.
\<close>

definition random :: "env \<Rightarrow> nat \<Rightarrow> world \<Rightarrow> nat \<times> world" where
  "random e howbig w =
     (if howbig = 0 then (0, advance e w)
      else (rnd e (draws w) mod howbig, advance e (w\<lparr>draws := Suc (draws w)\<rparr>)))"

definition tft_call :: "env \<Rightarrow> gfx \<Rightarrow> world \<Rightarrow> world" where
  "tft_call e g w = advance e (w\<lparr>tft := tft w @ [(instant w, g)]\<rparr>)"

definition serial_call :: "env \<Rightarrow> ser \<Rightarrow> world \<Rightarrow> world" where
  "serial_call e s w = advance e (w\<lparr>serial := serial w @ [s]\<rparr>)"

section \<open>Constants of the sketch\<close>

definition BLACK :: u16 where "BLACK = 0x0000"
definition WHITE :: u16 where "WHITE = 0xFFFF"

definition rootDir :: string where "rootDir = ''/''"
definition screenWidth :: u16 where "screenWidth = 240"
definition screenLength :: u16 where "screenLength = 320"
definition slideshowRefreshTime :: int where "slideshowRefreshTime = 4000"
definition maxStates :: u8 where "maxStates = 2"

text \<open>The locals of \<^verbatim>\<open>patternMode\<close> that are constants.\<close>

definition spriteSize :: u16 where "spriteSize = 32"
definition maxSprites :: u16 where "maxSprites = 10"
definition xBorderSprite :: u16 where "xBorderSprite = screenWidth - spriteSize"
definition yBorderSprite :: u16 where "yBorderSprite = screenLength - spriteSize - 100"
definition refreshTime :: int where "refreshTime = 500"

section \<open>Displaying one image\<close>

text \<open>C's division of signed integers truncates towards zero.\<close>

definition c_div :: "int \<Rightarrow> int \<Rightarrow> int" where
  "c_div a b = sgn a * sgn b * (\<bar>a\<bar> div \<bar>b\<bar>)"

text \<open>
  \<^verbatim>\<open>displayImageTFT(tft, filename)\<close>: the centred display. \<open>width\<close> and \<open>height\<close>
  start at 0 and are handed to the dimension query as output parameters; the
  subtraction and the division are those of \<^verbatim>\<open>int\<close>, and the quotient is cut to the
  \<^verbatim>\<open>int16_t\<close> parameter of \<^verbatim>\<open>drawBMP\<close>. Neither status is tested.
\<close>

definition displayImageTFT :: "env \<Rightarrow> string \<Rightarrow> world \<Rightarrow> world" where
  "displayImageTFT e filename w =
     (let width = 0;
          height = 0;
          (stat, width, height) = bmpDimensions e filename width height;
          w = advance e w;
          w = serial_call e (PrintStatus stat) w;
          x = word_of_int (c_div (sint (ucast screenWidth - width)) 2);
          y = word_of_int (c_div (sint (ucast screenLength - height)) 2);
          stat = drawBMP e filename x y;
          w = tft_call e (DrawBMP filename x y) w
      in serial_call e (PrintStatus stat) w)"

text \<open>\<^verbatim>\<open>displayImageTFT(tft, filename, x, y)\<close>: the overload with a position.\<close>

definition displayImageTFT_at :: "env \<Rightarrow> string \<Rightarrow> int \<Rightarrow> int \<Rightarrow> world \<Rightarrow> world" where
  "displayImageTFT_at e filename x y w =
     (let stat = drawBMP e filename (word_of_int x) (word_of_int y);
          w = tft_call e (DrawBMP filename (word_of_int x) (word_of_int y)) w
      in serial_call e (PrintStatus stat) w)"

section \<open>The sprite animator of \<^verbatim>\<open>patternMode\<close>\<close>

text \<open>The three arrays of \<^verbatim>\<open>patternMode\<close>, each of \<open>maxSprites\<close> elements.\<close>

record sprites =
  posXArr :: "u16 list"
  posYArr :: "u16 list"
  onScreen :: "bool list"

definition init_sprites :: sprites where
  "init_sprites =
     \<lparr>posXArr = replicate (unat maxSprites) 0,
      posYArr = replicate (unat maxSprites) 0,
      onScreen = replicate (unat maxSprites) False\<rparr>"

text \<open>
  The two nested tests of the collision loop for the candidate \<open>(xPos, yPos)\<close> and
  slot \<open>i\<close>. All operands are promoted to \<^verbatim>\<open>int\<close>, so \<open>posXArr[i]-spriteSize-1\<close> may
  be negative and nothing wraps.
\<close>

definition collisionX :: "sprites \<Rightarrow> nat \<Rightarrow> u16 \<Rightarrow> bool" where
  "collisionX s i xPos =
     (\<not> (uint xPos < uint (posXArr s ! i) - uint spriteSize - 1
         \<or> uint xPos > uint (posXArr s ! i) + uint spriteSize + 1))"

definition collisionY :: "sprites \<Rightarrow> nat \<Rightarrow> u16 \<Rightarrow> bool" where
  "collisionY s i yPos =
     (\<not> (uint yPos < uint (posYArr s ! i) - uint spriteSize - 1
         \<or> uint yPos > uint (posYArr s ! i) + uint spriteSize + 1))"

text \<open>
  The \<^verbatim>\<open>for\<close> loop over the slots, for the indices still to visit. Every iteration
  takes an instant, so that the interrupt can fire during a pass that makes no call.
  On a collision the flag is set, both coordinates are drawn again, and the loop goes
  on to the next slot with the new candidate.
\<close>

fun scanSprites :: "env \<Rightarrow> sprites \<Rightarrow> nat list \<Rightarrow> u16 \<Rightarrow> u16 \<Rightarrow> bool \<Rightarrow> world
    \<Rightarrow> u16 \<times> u16 \<times> bool \<times> world" where
  "scanSprites e s [] xPos yPos collision w = (xPos, yPos, collision, w)"
| "scanSprites e s (i # rest) xPos yPos collision w =
     (if onScreen s ! i \<and> collisionX s i xPos \<and> collisionY s i yPos then
        (let w = advance e w;
             w = serial_call e (Println ''Y Collision detected!'') w;
             (rx, w) = random e (unat xBorderSprite) w;
             (ry, w) = random e (unat yBorderSprite) w
         in scanSprites e s rest (word_of_nat rx) (word_of_nat ry) True w)
      else scanSprites e s rest xPos yPos collision (advance e w))"

text \<open>
  The \<^verbatim>\<open>do ... while(collision)\<close> loop. \<open>None\<close>: the button's flag was seen and the
  sketch returns from \<^verbatim>\<open>patternMode\<close>. \<open>Some (xPos, yPos)\<close>: the loop ended with this
  candidate.
\<close>

fun retry :: "nat \<Rightarrow> env \<Rightarrow> sprites \<Rightarrow> u16 \<Rightarrow> u16 \<Rightarrow> world \<Rightarrow> (u16 \<times> u16) option run" where
  "retry 0 e s xPos yPos w = Busy w"
| "retry (Suc n) e s xPos yPos w =
     (if changeButtonState w then Ret None w
      else
        (case scanSprites e s [0..<unat maxSprites] xPos yPos False w of
          (xPos, yPos, collision, w) \<Rightarrow>
            if collision then retry n e s xPos yPos w else Ret (Some (xPos, yPos)) w))"

text \<open>
  The body of \<^verbatim>\<open>if(millis()-time1>=refreshTime)\<close> up to the last sprite drawn: one
  tick of the animation. \<open>Completed\<close>: the tick ran to its end. \<open>Aborted\<close>: it left
  \<^verbatim>\<open>patternMode\<close> through the \<^verbatim>\<open>return\<close> of the collision loop. Both carry the
  arrays as they are at that point.
\<close>

datatype tick = Completed sprites | Aborted sprites

fun slots :: "tick \<Rightarrow> sprites" where
  "slots (Completed s) = s"
| "slots (Aborted s) = s"

definition spriteTick :: "nat \<Rightarrow> env \<Rightarrow> sprites \<Rightarrow> world \<Rightarrow> tick run" where
  "spriteTick n e s w =
     (let (r, w) = random e (unat maxSprites) w;
          spritePick = (word_of_nat r :: u16);
          k = unat spritePick
      in
        if onScreen s ! k then
          (let w = displayImageTFT_at e ''/pattern/clear-32.bmp''
                     (uint (posXArr s ! k)) (uint (posYArr s ! k)) w
           in Ret (Completed (s\<lparr>onScreen := (onScreen s)[k := False]\<rparr>)) w)
        else
          (let (rx, w) = random e (unat xBorderSprite) w;
               xPos = (word_of_nat rx :: u16);
               (ry, w) = random e (unat yBorderSprite) w;
               yPos = (word_of_nat ry :: u16)
           in
             case retry n e s xPos yPos w of
               Busy w \<Rightarrow> Busy w
             | Ret None w \<Rightarrow> Ret (Aborted s) w
             | Ret (Some (xPos, yPos)) w \<Rightarrow>
                 (let s = s\<lparr>posXArr := (posXArr s)[k := xPos],
                            posYArr := (posYArr s)[k := yPos],
                            onScreen := (onScreen s)[k := True]\<rparr>;
                      w = displayImageTFT_at e ''/pattern/heart.bmp'' (uint xPos) (uint yPos) w
                  in Ret (Completed s) w)))"

text \<open>
  The \<^verbatim>\<open>while(true)\<close> loop of \<^verbatim>\<open>patternMode\<close>, with the arrays and \<open>time1\<close> as they
  stand. The comparison with \<open>refreshTime\<close> is one of \<^verbatim>\<open>unsigned long\<close>: the
  difference wraps around modulo \<open>2^32\<close>.
\<close>

fun patternLoop :: "nat \<Rightarrow> env \<Rightarrow> sprites \<Rightarrow> u32 \<Rightarrow> world \<Rightarrow> unit run" where
  "patternLoop 0 e s time1 w = Busy w"
| "patternLoop (Suc n) e s time1 w =
     (let w = yield e w in
        if changeButtonState w then Ret () w
        else
          (let (now, w) = millis e w in
             if now - time1 \<ge> word_of_int refreshTime then
               (case spriteTick n e s w of
                  Busy w \<Rightarrow> Busy w
                | Ret (Aborted s) w \<Rightarrow> Ret () w
                | Ret (Completed s) w \<Rightarrow>
                    (let (time1, w) = millis e w in patternLoop n e s time1 w))
             else patternLoop n e s time1 w))"

definition patternMode :: "nat \<Rightarrow> env \<Rightarrow> world \<Rightarrow> unit run" where
  "patternMode n e w =
     (let w = tft_call e (FillScreen BLACK) w;
          w = displayImageTFT_at e ''/pattern/bottom-message.bmp'' (- 5) 220 w;
          (time1, w) = millis e w
      in patternLoop n e init_sprites time1 w)"

section \<open>The slideshow\<close>

text \<open>
  The directory is the list of the names still to come. \<^verbatim>\<open>openNextFile\<close> gives the
  next entry, or an entry that tests false when none is left. \<^verbatim>\<open>getName\<close> copies an
  entry's name into a buffer of \<open>len\<close> characters, the terminator included: a name of
  fewer than \<open>len\<close> characters arrives whole; of what the library leaves there
  otherwise at most \<open>len - 1\<close> characters are read; the name of an entry that tests
  false is taken to be empty. The buffer of \<^verbatim>\<open>displayAllImagesDir\<close> has \<open>nameLengthMax\<close>
  characters.
\<close>

definition nameLengthMax :: u8 where "nameLengthMax = 50"

definition sd_open :: "env \<Rightarrow> world \<Rightarrow> string list \<times> world" where
  "sd_open e w = (files e, advance e w)"

definition openNextFile :: "env \<Rightarrow> string list \<Rightarrow> world \<Rightarrow> string option \<times> string list \<times> world" where
  "openNextFile e dir w =
     (case dir of
        [] \<Rightarrow> (None, [], advance e w)
      | f # rest \<Rightarrow> (Some f, rest, advance e w))"

definition getName :: "env \<Rightarrow> string option \<Rightarrow> nat \<Rightarrow> world \<Rightarrow> string \<times> world" where
  "getName e entry len w =
     (case entry of
        None \<Rightarrow> ([], advance e w)
      | Some f \<Rightarrow>
          (if length f < len then f else take (len - 1) (longName e f), advance e w))"

text \<open>
  The \<^verbatim>\<open>while(entry)\<close> loop of \<^verbatim>\<open>displayAllImagesDir\<close>. \<open>Ret None\<close>: the function
  returned on the button's flag. \<open>Ret (Some time_1)\<close>: the entries are exhausted, and
  \<open>time_1\<close> is when the last one was shown.
\<close>

fun showEntries :: "nat \<Rightarrow> env \<Rightarrow> string option \<Rightarrow> string list \<Rightarrow> u32 \<Rightarrow> world
    \<Rightarrow> u32 option run" where
  "showEntries 0 e entry dir time_1 w = Busy w"
| "showEntries (Suc n) e None dir time_1 w = Ret (Some time_1) w"
| "showEntries (Suc n) e (Some f) dir time_1 w =
     (if changeButtonState w then Ret None w
      else
        (let (now, w) = millis e w in
           if now - time_1 \<ge> word_of_int slideshowRefreshTime then
             (let (name, w) = getName e (Some f) (unat nameLengthMax) w;
                  completeFilename = rootDir @ name;
                  w = displayImageTFT e completeFilename w;
                  (entry, dir, w) = openNextFile e dir w;
                  (time_1, w) = millis e w;
                  w = yield e w
              in showEntries n e entry dir time_1 w)
           else showEntries n e (Some f) dir time_1 (yield e w)))"

text \<open>The last loop: the delay for the last picture. It does not read the flag.\<close>

fun lastDelay :: "nat \<Rightarrow> env \<Rightarrow> u32 \<Rightarrow> world \<Rightarrow> unit run" where
  "lastDelay 0 e time_1 w = Busy w"
| "lastDelay (Suc n) e time_1 w =
     (let (now, w) = millis e w in
        if \<not> (now - time_1 \<ge> word_of_int slideshowRefreshTime)
        then lastDelay n e time_1 (yield e w)
        else Ret () w)"

definition displayAllImagesDir :: "nat \<Rightarrow> env \<Rightarrow> world \<Rightarrow> unit run" where
  "displayAllImagesDir n e w =
     (let completeFilename = rootDir;
          (dir, w) = sd_open e w;
          (entry, dir, w) = openNextFile e dir w;
          (time_1, w) = millis e w;
          (name, w) = getName e entry (unat nameLengthMax) w;
          completeFilename = completeFilename @ name;
          w = displayImageTFT e completeFilename w;
          (entry, dir, w) = openNextFile e dir w
      in
        case showEntries n e entry dir time_1 w of
          Busy w \<Rightarrow> Busy w
        | Ret None w \<Rightarrow> Ret () w
        | Ret (Some time_1) w \<Rightarrow> lastDelay n e time_1 w)"

section \<open>The mode state machine\<close>

text \<open>
  The first statement of \<^verbatim>\<open>loop\<close>: the debounced change of state. \<^verbatim>\<open>millis()\<close> is
  called only when the flag is up (\<^verbatim>\<open>&&\<close> does not evaluate its right operand
  otherwise), and once more after the flag is cleared.
\<close>

definition stateChange :: "env \<Rightarrow> world \<Rightarrow> world" where
  "stateChange e w =
     (if changeButtonState w then
        (let (now, w) = millis e w in
           if now - prevStateChange w \<ge> 50 then
             (let w = serial_call e (Println ''State Change'') w;
                  w = w\<lparr>currentState := currentState w + 1\<rparr>;
                  w = (if unat (currentState w) \<ge> unat maxStates
                       then w\<lparr>currentState := 0\<rparr> else w);
                  w = w\<lparr>changeButtonState := False\<rparr>;
                  (now, w) = millis e w
              in w\<lparr>prevStateChange := now\<rparr>)
           else w\<lparr>changeButtonState := False\<rparr>)
      else w\<lparr>changeButtonState := False\<rparr>)"

definition loop :: "nat \<Rightarrow> env \<Rightarrow> world \<Rightarrow> unit run" where
  "loop n e w =
     (let w = stateChange e w in
        if currentState w = 0 then displayAllImagesDir n e w
        else if currentState w = 1 then patternMode n e w
        else displayAllImagesDir n e w)"

section \<open>Start-up\<close>

definition errorMode :: "env \<Rightarrow> string \<Rightarrow> world \<Rightarrow> world" where
  "errorMode e message w =
     (let w = tft_call e (FillScreen BLACK) w;
          w = tft_call e (SetCursor 0 0) w;
          w = tft_call e (SetTextSize 2) w;
          w = tft_call e (SetTextColor WHITE) w;
          w = tft_call e (TftPrintln message) w;
          w = tft_call e (TftPrintln '' '') w
      in tft_call e (TftPrintln ''Please unplug and \<newline>replug the device'') w)"

text \<open>\<^verbatim>\<open>while(true){ yield(); }\<close>\<close>

fun idle :: "nat \<Rightarrow> env \<Rightarrow> world \<Rightarrow> unit run" where
  "idle 0 e w = Busy w"
| "idle (Suc n) e w = idle n e (yield e w)"

text \<open>
  \<^verbatim>\<open>setup\<close>. The handler is attached by the last statement; the model lets the
  button's edge set the flag from the first instant on, which only adds runs.
\<close>

definition setup_sketch :: "nat \<Rightarrow> env \<Rightarrow> world \<Rightarrow> unit run" where
  "setup_sketch n e w =
     (let w = serial_call e (SerialBegin 9600) w;
          w = tft_call e TftBegin w;
          w = serial_call e (Print ''Initializing filesystem...'') w;
          mounted = sdBegin e;
          w = advance e w
      in
        if \<not> mounted then
          (let w = serial_call e (Println ''SD begin() failed'') w;
               w = errorMode e ''SD card not detected'' w
           in idle n e w)
        else
          (let w = serial_call e (Println ''OK!'') w;
               w = advance e w;
               w = advance e w
           in Ret () w))"

text \<open>
  The Arduino core calls \<^verbatim>\<open>setup\<close> once and then \<^verbatim>\<open>loop\<close> again and again;
  \<open>loops k\<close> is \<open>k\<close> calls of \<^verbatim>\<open>loop\<close> in a row.
\<close>

fun loops :: "nat \<Rightarrow> nat \<Rightarrow> env \<Rightarrow> world \<Rightarrow> unit run" where
  "loops 0 n e w = Ret () w"
| "loops (Suc k) n e w =
     (case loop n e w of
        Busy w \<Rightarrow> Busy w
      | Ret u w \<Rightarrow> loops k n e w)"

definition sketch :: "nat \<Rightarrow> nat \<Rightarrow> env \<Rightarrow> world \<Rightarrow> unit run" where
  "sketch k n e w =
     (case setup_sketch n e w of
        Busy w \<Rightarrow> Busy w
      | Ret u w \<Rightarrow> loops k n e w)"

section \<open>The predicates of the specification\<close>

definition sized :: "sprites \<Rightarrow> bool" where
  "sized s \<longleftrightarrow>
     length (posXArr s) = unat maxSprites \<and> length (posYArr s) = unat maxSprites
     \<and> length (onScreen s) = unat maxSprites"

definition no_overlap :: "sprites \<Rightarrow> bool" where
  "no_overlap s \<longleftrightarrow>
     (\<forall>i \<in> {0..<unat maxSprites}. \<forall>j \<in> {0..<unat maxSprites}.
        i \<noteq> j \<and> onScreen s ! i \<and> onScreen s ! j \<longrightarrow>
          \<bar>uint (posXArr s ! i) - uint (posXArr s ! j)\<bar> > uint spriteSize + 1
        \<or> \<bar>uint (posYArr s ! i) - uint (posYArr s ! j)\<bar> > uint spriteSize + 1)"

definition elapses :: "env \<Rightarrow> world \<Rightarrow> world \<Rightarrow> bool" where
  "elapses e w w' \<longleftrightarrow>
     instant w \<le> instant w'
     \<and> (changeButtonState w' \<longleftrightarrow>
          changeButtonState w \<or> (\<exists>k \<in> {instant w..<instant w'}. isr e k))"

definition in_bounds :: "u16 \<Rightarrow> u16 \<Rightarrow> bool" where
  "in_bounds x y \<longleftrightarrow> unat x < unat xBorderSprite \<and> unat y < unat yBorderSprite"

text \<open>
  The contents of the arrays that \<^verbatim>\<open>patternMode\<close> can reach on a board: they start
  empty, and every completed tick, from whatever world and with whatever budget, leads
  from one to the next.
\<close>

inductive reachable :: "env \<Rightarrow> sprites \<Rightarrow> bool" for e :: env where
  start: "reachable e init_sprites"
| tick: "reachable e s \<Longrightarrow> spriteTick n e s w = Ret (Completed s') w' \<Longrightarrow> reachable e s'"

text \<open>The slot a tick starting in world \<open>w\<close> selects: its first random value.\<close>

definition pickedSlot :: "env \<Rightarrow> world \<Rightarrow> nat" where
  "pickedSlot e w = unat (word_of_nat (fst (random e (unat maxSprites) w)) :: u16)"

text \<open>
  The world in which the collision loop of a tick starting in world \<open>w\<close> begins, and the
  candidate it begins with: the slot and both coordinates have been drawn.
\<close>

definition loopStart :: "env \<Rightarrow> world \<Rightarrow> world" where
  "loopStart e w =
     (let (r, w) = random e (unat maxSprites) w;
          (rx, w) = random e (unat xBorderSprite) w;
          (ry, w) = random e (unat yBorderSprite) w
      in w)"

definition firstCandidate :: "env \<Rightarrow> world \<Rightarrow> u16 \<times> u16" where
  "firstCandidate e w =
     (let (r, w) = random e (unat maxSprites) w;
          (rx, w) = random e (unat xBorderSprite) w;
          (ry, w) = random e (unat yBorderSprite) w
      in (word_of_nat rx, word_of_nat ry))"

text \<open>
  Every visible sprite ends above the row where \<^verbatim>\<open>patternMode\<close> draws the bottom
  message (row 220): its top row is at most 187 and its last row at most 218.
\<close>

definition clear_of_message :: "sprites \<Rightarrow> bool" where
  "clear_of_message s \<longleftrightarrow>
     (\<forall>i \<in> {0..<unat maxSprites}. onScreen s ! i \<longrightarrow>
        uint (posYArr s ! i) \<le> 187
        \<and> uint (posYArr s ! i) + uint spriteSize - 1 \<le> 218
        \<and> uint (posYArr s ! i) + uint spriteSize - 1 < 220)"

section \<open>Concrete boards\<close>

text \<open>
  A board for running the sketch on: the card mounts and holds three images, every
  image is 240 by 320 and draws without error, the clock advances by \<open>ms\<close>
  milliseconds per instant, the random generator yields \<open>rs\<close> (then zeros), and the
  button's edge arrives in the instants \<open>ps\<close>.
\<close>

definition board :: "nat \<Rightarrow> nat list \<Rightarrow> nat list \<Rightarrow> env" where
  "board ms rs ps =
     \<lparr>clock = (\<lambda>k. word_of_nat (ms * k)),
      isr = (\<lambda>k. k \<in> set ps),
      rnd = (\<lambda>k. if k < length rs then rs ! k else 0),
      sdBegin = True,
      files = [''a.bmp'', ''b.bmp'', ''c.bmp''],
      longName = (\<lambda>name. []),
      bmpDimensions = (\<lambda>name width height. (IMAGE_SUCCESS, 240, 320)),
      drawBMP = (\<lambda>name x y. IMAGE_SUCCESS)\<rparr>"

text \<open>The world when the sketch starts.\<close>

definition power_on :: world where
  "power_on =
     \<lparr>instant = 0, changeButtonState = False, currentState = 0, prevStateChange = 0,
      draws = 0, tft = [], serial = []\<rparr>"

text \<open>Slot 0 shows a sprite at (10, 10); the other slots are empty.\<close>

definition one_sprite :: sprites where
  "one_sprite =
     \<lparr>posXArr = [10, 0, 0, 0, 0, 0, 0, 0, 0, 0],
      posYArr = [10, 0, 0, 0, 0, 0, 0, 0, 0, 0],
      onScreen = [True, False, False, False, False, False, False, False, False, False]\<rparr>"

text \<open>Slots 0 and 3 show sprites, at (10, 10) and (100, 100).\<close>

definition two_sprites :: sprites where
  "two_sprites =
     \<lparr>posXArr = [10, 0, 0, 100, 0, 0, 0, 0, 0, 0],
      posYArr = [10, 0, 0, 100, 0, 0, 0, 0, 0, 0],
      onScreen = [True, False, False, True, False, False, False, False, False, False]\<rparr>"

text \<open>
  Two boards for the animator. On \<open>calm_board\<close> nobody touches the button and the
  random generator yields 3, 20, 20, 100, 100, 3; on \<open>pressed_board\<close> it yields the same
  values and the button's edge arrives in instant 4, while the collision found in the
  first pass over the slots is reported.
\<close>

definition calm_board :: env where
  "calm_board = board 1 [3, 20, 20, 100, 100, 3] []"

definition pressed_board :: env where
  "pressed_board = board 1 [3, 20, 20, 100, 100, 3] [4]"

text \<open>The worlds that the ticks of the examples reach.\<close>

definition after_place :: world where
  "after_place =
     power_on\<lparr>instant := 28, draws := 5,
       tft := [(26, DrawBMP ''/pattern/heart.bmp'' 100 100)],
       serial := [Println ''Y Collision detected!'', PrintStatus IMAGE_SUCCESS]\<rparr>"

definition after_erase :: world where
  "after_erase =
     power_on\<lparr>instant := 31, draws := 6,
       tft := [(26, DrawBMP ''/pattern/heart.bmp'' 100 100),
               (29, DrawBMP ''/pattern/clear-32.bmp'' 100 100)],
       serial := [Println ''Y Collision detected!'', PrintStatus IMAGE_SUCCESS,
                  PrintStatus IMAGE_SUCCESS]\<rparr>"

definition after_abort :: world where
  "after_abort =
     power_on\<lparr>instant := 16, changeButtonState := True, draws := 5,
       serial := [Println ''Y Collision detected!'']\<rparr>"

text \<open>The world in which the collision loop of these ticks starts.\<close>

definition before_retry :: world where
  "before_retry = power_on\<lparr>instant := 3, draws := 3\<rparr>"

text \<open>
  On \<open>touched_board\<close> the random generator yields the same values and the button's edge
  arrives in instant 20: the collision loop has tested the flag for the second time in
  instant 16 and is visiting the slots with the candidate (100, 100), which it accepts.
  \<open>second_test\<close> is the world of that test, \<open>accepted\<close> the one in which the loop ends,
  and \<open>after_touch\<close> the one in which the tick ends.
\<close>

definition touched_board :: env where
  "touched_board = board 1 [3, 20, 20, 100, 100, 3] [20]"

definition second_test :: world where
  "second_test =
     power_on\<lparr>instant := 16, draws := 5, serial := [Println ''Y Collision detected!'']\<rparr>"

definition accepted :: world where
  "accepted =
     power_on\<lparr>instant := 26, changeButtonState := True, draws := 5,
       serial := [Println ''Y Collision detected!'']\<rparr>"

definition after_touch :: world where
  "after_touch =
     power_on\<lparr>instant := 28, changeButtonState := True, draws := 5,
       tft := [(26, DrawBMP ''/pattern/heart.bmp'' 100 100)],
       serial := [Println ''Y Collision detected!'', PrintStatus IMAGE_SUCCESS]\<rparr>"

text \<open>
  On \<open>hasty_board\<close> the edge arrives in instant 504. \<open>due\<close> is a world of the loop of
  \<^verbatim>\<open>patternMode\<close> in which \<open>refreshTime\<close> has elapsed since \<open>time1 = 0\<close>: the tick that the
  loop starts draws its slot and its first candidate in the instants 502 to 504 and
  finds the flag up in \<open>stopped\<close>, at the first test of the collision loop.
\<close>

definition hasty_board :: env where
  "hasty_board = board 1 [3, 20, 20, 100, 100, 3] [504]"

definition due :: world where
  "due = power_on\<lparr>instant := 500\<rparr>"

definition stopped :: world where
  "stopped = power_on\<lparr>instant := 505, changeButtonState := True, draws := 3\<rparr>"

text \<open>Slot 0 shows a sprite at (10, 10); slot 3 is empty again and keeps (100, 100).\<close>

definition erased_sprites :: sprites where
  "erased_sprites =
     \<lparr>posXArr = [10, 0, 0, 100, 0, 0, 0, 0, 0, 0],
      posYArr = [10, 0, 0, 100, 0, 0, 0, 0, 0, 0],
      onScreen = [True, False, False, False, False, False, False, False, False, False]\<rparr>"

text \<open>
  The contract of the image reader's dimension query that the centred display relies
  on: a query that does not succeed leaves its two output parameters as they were.
\<close>

definition leaves_outputs_on_failure :: "env \<Rightarrow> bool" where
  "leaves_outputs_on_failure e \<longleftrightarrow>
     (\<forall>name width height.
        fst (bmpDimensions e name width height) \<noteq> IMAGE_SUCCESS \<longrightarrow>
          snd (bmpDimensions e name width height) = (width, height))"

text \<open>A board whose card holds no readable image.\<close>

definition unreadable_board :: env where
  "unreadable_board =
     (board 1 [] [])
       \<lparr>bmpDimensions := (\<lambda>name width height. (IMAGE_ERR_FILE_NOT_FOUND, width, height)),
        drawBMP := (\<lambda>name x y. IMAGE_ERR_FILE_NOT_FOUND)\<rparr>"

text \<open>A board whose card does not mount, and whose button is pressed again and again.\<close>

definition no_card_board :: env where
  "no_card_board = (board 1 [] [])\<lparr>sdBegin := False, isr := (\<lambda>k. even k)\<rparr>"

text \<open>What \<^verbatim>\<open>setup\<close> and \<^verbatim>\<open>errorMode\<close> put on the display when the card does not mount.\<close>

definition error_screen :: "nat \<Rightarrow> (nat \<times> gfx) list" where
  "error_screen i =
     [(i + 1, TftBegin),
      (i + 5, FillScreen BLACK),
      (i + 6, SetCursor 0 0),
      (i + 7, SetTextSize 2),
      (i + 8, SetTextColor WHITE),
      (i + 9, TftPrintln ''SD card not detected''),
      (i + 10, TftPrintln '' ''),
      (i + 11, TftPrintln ''Please unplug and \<newline>replug the device'')]"

text \<open>The number of state changes the sketch has announced on the serial port.\<close>

definition transitions :: "world \<Rightarrow> nat" where
  "transitions w = length (filter (\<lambda>x. x = Println ''State Change'') (serial w))"

text \<open>
  A board that has been running for a second, on which every call takes a millisecond
  except the one made in instant 12, which takes 61, and whose button bounces: its
  edge arrives in instant 8 and again in instant 12, four milliseconds later.
\<close>

definition bouncy_board :: env where
  "bouncy_board =
     (board 1 [] [8, 12])
       \<lparr>clock := (\<lambda>k. word_of_nat (1000 + k + (if 12 < k then 60 else 0)))\<rparr>"

text \<open>
  Two boards for the slideshow, on which every call takes half a second: on
  \<open>waiting_board\<close> the button's edge arrives in instant 20, while the second image is
  on display, and on \<open>late_board\<close> in instant 36, during the delay for the last image.
\<close>

definition waiting_board :: env where
  "waiting_board = board 500 [] [20]"

definition late_board :: env where
  "late_board = board 500 [] [36]"

text \<open>The worlds that the examples of the state machine pass through.\<close>

definition bounce_seen :: world where
  "bounce_seen =
     power_on\<lparr>instant := 9, changeButtonState := True,
       tft := [(6, DrawBMP ''/a.bmp'' 0 0)],
       serial := [PrintStatus IMAGE_SUCCESS, PrintStatus IMAGE_SUCCESS]\<rparr>"

definition bounce_again :: world where
  "bounce_again =
     power_on\<lparr>instant := 17, changeButtonState := True, currentState := 1,
       prevStateChange := 1011,
       tft := [(6, DrawBMP ''/a.bmp'' 0 0), (12, FillScreen 0),
               (13, DrawBMP ''/pattern/bottom-message.bmp'' 65531 220)],
       serial := [PrintStatus IMAGE_SUCCESS, PrintStatus IMAGE_SUCCESS,
                  Println ''State Change'', PrintStatus IMAGE_SUCCESS]\<rparr>"

definition waiting_end :: world where
  "waiting_end =
     power_on\<lparr>instant := 22, changeButtonState := True,
       tft := [(6, DrawBMP ''/a.bmp'' 0 0), (15, DrawBMP ''/b.bmp'' 0 0)],
       serial := [PrintStatus IMAGE_SUCCESS, PrintStatus IMAGE_SUCCESS,
                  PrintStatus IMAGE_SUCCESS, PrintStatus IMAGE_SUCCESS]\<rparr>"

definition late_end :: world where
  "late_end =
     power_on\<lparr>instant := 42, changeButtonState := True,
       tft := [(6, DrawBMP ''/a.bmp'' 0 0), (15, DrawBMP ''/b.bmp'' 0 0),
               (30, DrawBMP ''/c.bmp'' 0 0)],
       serial := [PrintStatus IMAGE_SUCCESS, PrintStatus IMAGE_SUCCESS,
                  PrintStatus IMAGE_SUCCESS, PrintStatus IMAGE_SUCCESS,
                  PrintStatus IMAGE_SUCCESS, PrintStatus IMAGE_SUCCESS]\<rparr>"

text \<open>
  The call to the display that the centred display of \<open>name\<close> makes: the image is
  drawn at the position computed from what the dimension query reports.
\<close>

definition centred :: "env \<Rightarrow> string \<Rightarrow> gfx" where
  "centred e name =
     (case bmpDimensions e name 0 0 of
        (stat, width, height) \<Rightarrow>
          DrawBMP name
            (word_of_int (c_div (sint (ucast screenWidth - width)) 2))
            (word_of_int (c_div (sint (ucast screenLength - height)) 2)))"

text \<open>
  While the slideshow waits it reads the clock every second instant (a call of
  \<^verbatim>\<open>millis\<close>, then one of \<^verbatim>\<open>yield\<close>). \<open>first_poll e p t j\<close>: of the polls of a wait
  that starts in instant \<open>p\<close>, poll number \<open>j\<close>, counted from 0, is the first to find
  the refresh time elapsed since the time stamp \<open>t\<close>.
\<close>

definition first_poll :: "env \<Rightarrow> nat \<Rightarrow> u32 \<Rightarrow> nat \<Rightarrow> bool" where
  "first_poll e p t j \<longleftrightarrow>
     (\<forall>i<j. clock e (p + 2 * i) - t < word_of_int slideshowRefreshTime)
     \<and> word_of_int slideshowRefreshTime \<le> clock e (p + 2 * j) - t"

text \<open>A board on which every call takes a millisecond and nobody touches the button.\<close>

definition steady_board :: env where
  "steady_board = board 1 [] []"

text \<open>Slot 3 shows a sprite at (20, 20), and the world in which the tick that put it there ends.\<close>

definition first_sprite :: sprites where
  "first_sprite =
     \<lparr>posXArr = [0, 0, 0, 20, 0, 0, 0, 0, 0, 0],
      posYArr = [0, 0, 0, 20, 0, 0, 0, 0, 0, 0],
      onScreen = [False, False, False, True, False, False, False, False, False, False]\<rparr>"

definition after_first :: world where
  "after_first =
     power_on\<lparr>instant := 15, draws := 3,
       tft := [(13, DrawBMP ''/pattern/heart.bmp'' 20 20)],
       serial := [PrintStatus IMAGE_SUCCESS]\<rparr>"

section \<open>Time and the flag\<close>

lemma advance_flag: "changeButtonState (advance e w) = (changeButtonState w \<or> isr e (instant w))"
  by (simp add: advance_def modeChangeInterupt_def)

lemma advance_instant: "instant (advance e w) = Suc (instant w)"
  by (simp add: advance_def modeChangeInterupt_def)

lemma elapses_refl: "elapses e w w"
  by (simp add: elapses_def)

lemma bex_split_interval:
  "a \<le> b \<Longrightarrow> b \<le> (c::nat) \<Longrightarrow>
     (\<exists>k \<in> {a..<c}. P k) \<longleftrightarrow> (\<exists>k \<in> {a..<b}. P k) \<or> (\<exists>k \<in> {b..<c}. P k)"
proof -
  assume "a \<le> b" "b \<le> c"
  then have "{a..<c} = {a..<b} \<union> {b..<c}"
    by auto
  then show ?thesis
    by (simp only: bex_Un)
qed

lemma elapses_trans: "elapses e w1 w2 \<Longrightarrow> elapses e w2 w3 \<Longrightarrow> elapses e w1 w3"
  unfolding elapses_def
  by (simp add: bex_split_interval [of "instant w1" "instant w2" "instant w3"] disj_assoc)

lemma elapses_advance: "elapses e w (advance e w)"
  by (auto simp: elapses_def advance_flag advance_instant)

lemma elapses_random: "random e n w = (r, w') \<Longrightarrow> elapses e w w'"
  by (auto simp: random_def elapses_def advance_flag advance_instant split: if_splits)

lemma elapses_serial_call: "elapses e w (serial_call e x w)"
  by (auto simp: serial_call_def elapses_def advance_flag advance_instant)

lemma unat_maxSprites: "unat maxSprites = 10"
  by (simp add: maxSprites_def)

lemma unat_xBorderSprite: "unat xBorderSprite = 208"
  by (simp add: xBorderSprite_def screenWidth_def spriteSize_def)

lemma unat_yBorderSprite: "unat yBorderSprite = 188"
  by (simp add: yBorderSprite_def screenLength_def spriteSize_def)

lemma unat_random_x:
  "random e (unat xBorderSprite) w = (r, w') \<Longrightarrow> unat (word_of_nat r :: u16) < 208"
  by (auto simp: random_def unat_xBorderSprite unat_of_nat split: if_splits)

lemma unat_random_y:
  "random e (unat yBorderSprite) w = (r, w') \<Longrightarrow> unat (word_of_nat r :: u16) < 188"
  by (auto simp: random_def unat_yBorderSprite unat_of_nat split: if_splits)

text \<open>
  A pass of the for loop that ends with the collision flag down has kept the candidate and
  has taken one instant for each slot.
\<close>

lemma scanSprites_clear:
  "scanSprites e s is xPos yPos collision w = (x', y', False, w') \<Longrightarrow>
     x' = xPos \<and> y' = yPos \<and> instant w' = instant w + length is \<and> \<not> collision
     \<and> (\<forall>i \<in> set is. \<not> (onScreen s ! i \<and> collisionX s i xPos \<and> collisionY s i yPos))"
proof (induction "is" arbitrary: xPos yPos collision w)
  case Nil
  then show ?case by simp
next
  case (Cons i rest)
  show ?case
  proof (cases "onScreen s ! i \<and> collisionX s i xPos \<and> collisionY s i yPos")
    case True
    with Cons.prems obtain x2 y2 w2 where
      "scanSprites e s rest x2 y2 True w2 = (x', y', False, w')"
      by (auto split: prod.splits)
    from Cons.IH [OF this] show ?thesis by simp
  next
    case False
    with Cons.prems have
      "scanSprites e s rest xPos yPos collision (advance e w) = (x', y', False, w')"
      by simp
    from Cons.IH [OF this] False show ?thesis by (simp add: advance_instant)
  qed
qed

lemma scanSprites_bounds:
  "scanSprites e s is xPos yPos collision w = (x', y', c', w') \<Longrightarrow> in_bounds xPos yPos \<Longrightarrow>
     in_bounds x' y'"
proof (induction "is" arbitrary: xPos yPos collision w)
  case Nil
  then show ?case by simp
next
  case (Cons i rest)
  show ?case
  proof (cases "onScreen s ! i \<and> collisionX s i xPos \<and> collisionY s i yPos")
    case True
    with Cons.prems(1) obtain rx w1 ry w2 where
      rx: "random e (unat xBorderSprite)
             (serial_call e (Println ''Y Collision detected!'') (advance e w)) = (rx, w1)"
      and ry: "random e (unat yBorderSprite) w1 = (ry, w2)"
      and rec: "scanSprites e s rest (word_of_nat rx) (word_of_nat ry) True w2 = (x', y', c', w')"
      by (auto split: prod.splits)
    have "in_bounds (word_of_nat rx) (word_of_nat ry)"
      using unat_random_x [OF rx] unat_random_y [OF ry]
      by (simp add: in_bounds_def unat_xBorderSprite unat_yBorderSprite)
    with Cons.IH [OF rec] show ?thesis .
  next
    case False
    with Cons.prems have
      "scanSprites e s rest xPos yPos collision (advance e w) = (x', y', c', w')"
      by simp
    from Cons.IH [OF this Cons.prems(2)] show ?thesis .
  qed
qed

lemma scanSprites_elapses:
  "scanSprites e s is xPos yPos collision w = (x', y', c', w') \<Longrightarrow> elapses e w w'"
proof (induction "is" arbitrary: xPos yPos collision w)
  case Nil
  then show ?case by (simp add: elapses_refl)
next
  case (Cons i rest)
  show ?case
  proof (cases "onScreen s ! i \<and> collisionX s i xPos \<and> collisionY s i yPos")
    case True
    with Cons.prems(1) obtain rx w1 ry w2 where
      rx: "random e (unat xBorderSprite)
             (serial_call e (Println ''Y Collision detected!'') (advance e w)) = (rx, w1)"
      and ry: "random e (unat yBorderSprite) w1 = (ry, w2)"
      and rec: "scanSprites e s rest (word_of_nat rx) (word_of_nat ry) True w2 = (x', y', c', w')"
      by (auto split: prod.splits)
    have "elapses e w w2"
      using elapses_advance [of e w]
        elapses_serial_call [of e "advance e w" "Println ''Y Collision detected!''"]
        elapses_random [OF rx] elapses_random [OF ry]
      by (blast intro: elapses_trans)
    with Cons.IH [OF rec] show ?thesis
      by (blast intro: elapses_trans)
  next
    case False
    with Cons.prems have
      "scanSprites e s rest xPos yPos collision (advance e w) = (x', y', c', w')"
      by simp
    from Cons.IH [OF this] elapses_advance [of e w] show ?thesis
      by (blast intro: elapses_trans)
  qed
qed

lemma scanSprites_output:
  "tft (snd (snd (snd (scanSprites e s is xPos yPos collision w)))) = tft w"
  by (induction "is" arbitrary: xPos yPos collision w)
     (auto simp: random_def serial_call_def advance_def modeChangeInterupt_def Let_def
           split: prod.splits if_splits)

section \<open>The collision loop and the tick\<close>

lemma retry_accept:
  "retry n e s xPos yPos w = Ret (Some (x', y')) w' \<Longrightarrow> in_bounds xPos yPos \<Longrightarrow>
     in_bounds x' y'
     \<and> (\<forall>i \<in> {0..<unat maxSprites}. \<not> (onScreen s ! i \<and> collisionX s i x' \<and> collisionY s i y'))
     \<and> \<not> changeButtonState w
     \<and> (\<forall>k \<in> {instant w..<instant w' - unat maxSprites}. \<not> isr e k)
     \<and> elapses e w w' \<and> tft w' = tft w"
proof (induction n arbitrary: xPos yPos w)
  case 0
  then show ?case by simp
next
  case (Suc n)
  from Suc.prems(1) have flag: "\<not> changeButtonState w"
    by (auto split: if_splits)
  obtain x1 y1 c1 w1 where
    scan: "scanSprites e s [0..<unat maxSprites] xPos yPos False w = (x1, y1, c1, w1)"
    by (cases "scanSprites e s [0..<unat maxSprites] xPos yPos False w") auto
  have el: "elapses e w w1"
    by (rule scanSprites_elapses [OF scan])
  have out: "tft w1 = tft w"
    using scanSprites_output [of e s "[0..<unat maxSprites]" xPos yPos False w] scan by simp
  have bnd: "in_bounds x1 y1"
    by (rule scanSprites_bounds [OF scan Suc.prems(2)])
  show ?case
  proof (cases c1)
    case True
    with Suc.prems(1) flag scan have "retry n e s x1 y1 w1 = Ret (Some (x', y')) w'"
      by simp
    from Suc.IH [OF this bnd] have
      ih: "in_bounds x' y'"
        "\<forall>i \<in> {0..<unat maxSprites}.
           \<not> (onScreen s ! i \<and> collisionX s i x' \<and> collisionY s i y')"
        "\<not> changeButtonState w1"
        "\<forall>k \<in> {instant w1..<instant w' - unat maxSprites}. \<not> isr e k"
        "elapses e w1 w'" "tft w' = tft w1"
      by simp_all
    from el ih(3) have quiet: "\<forall>k \<in> {instant w..<instant w1}. \<not> isr e k"
      by (auto simp: elapses_def)
    have "\<forall>k \<in> {instant w..<instant w' - unat maxSprites}. \<not> isr e k"
    proof
      fix k
      assume "k \<in> {instant w..<instant w' - unat maxSprites}"
      then have "k \<in> {instant w..<instant w1} \<or> k \<in> {instant w1..<instant w' - unat maxSprites}"
        by auto
      with quiet ih(4) show "\<not> isr e k"
        by blast
    qed
    with ih flag el out show ?thesis
      by (auto intro: elapses_trans)
  next
    case False
    with Suc.prems(1) flag scan have eq: "x' = x1" "y' = y1" "w' = w1"
      by simp_all
    from scan False have "scanSprites e s [0..<unat maxSprites] xPos yPos False w = (x1, y1, False, w1)"
      by simp
    from scanSprites_clear [OF this] have
      "x1 = xPos" "y1 = yPos" "instant w1 = instant w + unat maxSprites"
      "\<forall>i \<in> set [0..<unat maxSprites]. \<not> (onScreen s ! i \<and> collisionX s i xPos \<and> collisionY s i yPos)"
      by simp_all
    with eq flag Suc.prems(2) el out show ?thesis
      by simp
  qed
qed

lemma retry_abort:
  "retry n e s xPos yPos w = Ret None w' \<Longrightarrow>
     changeButtonState w' \<and> elapses e w w' \<and> tft w' = tft w"
proof (induction n arbitrary: xPos yPos w)
  case 0
  then show ?case by simp
next
  case (Suc n)
  show ?case
  proof (cases "changeButtonState w")
    case True
    with Suc.prems show ?thesis by (simp add: elapses_refl)
  next
    case False
    obtain x1 y1 c1 w1 where
      scan: "scanSprites e s [0..<unat maxSprites] xPos yPos False w = (x1, y1, c1, w1)"
      by (cases "scanSprites e s [0..<unat maxSprites] xPos yPos False w") auto
    have el: "elapses e w w1"
      by (rule scanSprites_elapses [OF scan])
    have out: "tft w1 = tft w"
      using scanSprites_output [of e s "[0..<unat maxSprites]" xPos yPos False w] scan by simp
    from Suc.prems False scan have "retry n e s x1 y1 w1 = Ret None w'"
      by (auto split: if_splits)
    from Suc.IH [OF this] el out show ?thesis
      by (auto intro: elapses_trans)
  qed
qed

text \<open>What a tick does, by the state of the slot it selects.\<close>

lemma pickedSlot_less: "pickedSlot e w < unat maxSprites"
  by (simp add: pickedSlot_def random_def unat_maxSprites unat_of_nat)

lemma spriteTick_visible:
  assumes "onScreen s ! pickedSlot e w"
  shows "\<exists>w'. spriteTick n e s w =
           Ret (Completed (s\<lparr>onScreen := (onScreen s)[pickedSlot e w := False]\<rparr>)) w'"
proof -
  obtain r w1 where r: "random e (unat maxSprites) w = (r, w1)"
    by (cases "random e (unat maxSprites) w") auto
  with assms show ?thesis
    by (simp add: spriteTick_def pickedSlot_def Let_def)
qed

lemma spriteTick_invisible:
  assumes "\<not> onScreen s ! pickedSlot e w" and "spriteTick n e s w = Ret t w'"
  shows "t = Aborted s \<and> changeButtonState w' \<and> tft w' = tft w
         \<or> (\<exists>xPos yPos. 
              t = Completed (s\<lparr>posXArr := (posXArr s)[pickedSlot e w := xPos],
                               posYArr := (posYArr s)[pickedSlot e w := yPos],
                               onScreen := (onScreen s)[pickedSlot e w := True]\<rparr>)
              \<and> in_bounds xPos yPos
              \<and> (\<forall>i \<in> {0..<unat maxSprites}.
                    \<not> (onScreen s ! i \<and> collisionX s i xPos \<and> collisionY s i yPos))
              \<and> tft w' = tft w @ [(instant w' - 2, DrawBMP ''/pattern/heart.bmp'' xPos yPos)])"
proof -
  obtain r w1 where r: "random e (unat maxSprites) w = (r, w1)"
    by (cases "random e (unat maxSprites) w") auto
  obtain rx w2 where rx: "random e (unat xBorderSprite) w1 = (rx, w2)"
    by (cases "random e (unat xBorderSprite) w1") auto
  obtain ry w3 where ry: "random e (unat yBorderSprite) w2 = (ry, w3)"
    by (cases "random e (unat yBorderSprite) w2") auto
  have k: "pickedSlot e w = unat (word_of_nat r :: u16)"
    using r by (simp add: pickedSlot_def)
  have bnd: "in_bounds (word_of_nat rx) (word_of_nat ry)"
    using unat_random_x [OF rx] unat_random_y [OF ry]
    by (simp add: in_bounds_def unat_xBorderSprite unat_yBorderSprite)
  have out3: "tft w3 = tft w"
    using r rx ry
    by (auto simp: random_def advance_def modeChangeInterupt_def split: if_splits)
  show ?thesis
  proof (cases "retry n e s (word_of_nat rx) (word_of_nat ry) w3")
    case (Busy w4)
    with assms r rx ry k show ?thesis
      by (simp add: spriteTick_def Let_def)
  next
    case (Ret c w4)
    show ?thesis
    proof (cases c)
      case None
      with Ret assms r rx ry k have "t = Aborted s" "w' = w4"
        by (simp_all add: spriteTick_def Let_def)
      with retry_abort [OF Ret [unfolded None]] out3 show ?thesis
        by simp
    next
      case (Some p)
      obtain xPos yPos where p: "p = (xPos, yPos)"
        by (cases p) auto
      from Ret Some p assms r rx ry k have
        t: "t = Completed (s\<lparr>posXArr := (posXArr s)[pickedSlot e w := xPos],
                               posYArr := (posYArr s)[pickedSlot e w := yPos],
                               onScreen := (onScreen s)[pickedSlot e w := True]\<rparr>)"
        and w': "w' = displayImageTFT_at e ''/pattern/heart.bmp'' (uint xPos) (uint yPos) w4"
        by (simp_all add: spriteTick_def Let_def)
      from retry_accept [OF Ret [unfolded Some p] bnd] have
        acc: "in_bounds xPos yPos"
          "\<forall>i \<in> {0..<unat maxSprites}.
              \<not> (onScreen s ! i \<and> collisionX s i xPos \<and> collisionY s i yPos)"
          "tft w4 = tft w3"
        by simp_all
      have "tft w' = tft w @ [(instant w' - 2, DrawBMP ''/pattern/heart.bmp'' xPos yPos)]"
        using w' acc(3) out3
        by (simp add: displayImageTFT_at_def tft_call_def serial_call_def advance_def
              modeChangeInterupt_def Let_def)
      with t acc show ?thesis
        by blast
    qed
  qed
qed

section \<open>The slots never overlap\<close>

lemma collision_distance:
  "\<not> (collisionX s i xPos \<and> collisionY s i yPos) \<longleftrightarrow>
     \<bar>uint xPos - uint (posXArr s ! i)\<bar> > uint spriteSize + 1
     \<or> \<bar>uint yPos - uint (posYArr s ! i)\<bar> > uint spriteSize + 1"
  by (auto simp: collisionX_def collisionY_def)

lemma sized_init: "sized init_sprites"
  by (simp add: sized_def init_sprites_def)

lemma no_overlap_init: "no_overlap init_sprites"
  by (simp add: no_overlap_def init_sprites_def)

lemma nth_update_False: "xs[k := False] ! i \<Longrightarrow> xs ! i"
  by (cases "i = k"; cases "k < length xs") (simp_all add: list_update_beyond)

lemma no_overlap_erase:
  assumes "no_overlap s"
  shows "no_overlap (s\<lparr>onScreen := (onScreen s)[k := False]\<rparr>)"
  unfolding no_overlap_def
proof (intro ballI impI)
  fix i j
  assume ij: "i \<in> {0..<unat maxSprites}" "j \<in> {0..<unat maxSprites}"
    and vis: "i \<noteq> j \<and> onScreen (s\<lparr>onScreen := (onScreen s)[k := False]\<rparr>) ! i
              \<and> onScreen (s\<lparr>onScreen := (onScreen s)[k := False]\<rparr>) ! j"
  have "onScreen s ! i" "onScreen s ! j"
    using vis by (auto dest: nth_update_False)
  with assms ij vis show
    "\<bar>uint (posXArr (s\<lparr>onScreen := (onScreen s)[k := False]\<rparr>) ! i)
        - uint (posXArr (s\<lparr>onScreen := (onScreen s)[k := False]\<rparr>) ! j)\<bar> > uint spriteSize + 1
     \<or> \<bar>uint (posYArr (s\<lparr>onScreen := (onScreen s)[k := False]\<rparr>) ! i)
        - uint (posYArr (s\<lparr>onScreen := (onScreen s)[k := False]\<rparr>) ! j)\<bar> > uint spriteSize + 1"
    by (simp add: no_overlap_def)
qed

lemma no_overlap_place:
  assumes sz: "sized s" and inv: "no_overlap s" and k: "k < unat maxSprites"
    and free: "\<forall>i \<in> {0..<unat maxSprites}.
                 \<not> (onScreen s ! i \<and> collisionX s i xPos \<and> collisionY s i yPos)"
  shows "no_overlap (s\<lparr>posXArr := (posXArr s)[k := xPos],
                        posYArr := (posYArr s)[k := yPos],
                        onScreen := (onScreen s)[k := True]\<rparr>)"
    (is "no_overlap ?s'")
  unfolding no_overlap_def
proof (intro ballI impI)
  fix i j
  assume i: "i \<in> {0..<unat maxSprites}" and j: "j \<in> {0..<unat maxSprites}"
    and vis: "i \<noteq> j \<and> onScreen ?s' ! i \<and> onScreen ?s' ! j"
  have len: "k < length (posXArr s)" "k < length (posYArr s)" "k < length (onScreen s)"
    using sz k by (simp_all add: sized_def)
  have far: "\<And>m. m \<in> {0..<unat maxSprites} \<Longrightarrow> onScreen s ! m \<Longrightarrow>
               \<bar>uint xPos - uint (posXArr s ! m)\<bar> > uint spriteSize + 1
               \<or> \<bar>uint yPos - uint (posYArr s ! m)\<bar> > uint spriteSize + 1"
    using free collision_distance by blast
  consider (new_i) "i = k" "j \<noteq> k" | (new_j) "j = k" "i \<noteq> k" | (old) "i \<noteq> k" "j \<noteq> k"
    using vis by blast
  then show "\<bar>uint (posXArr ?s' ! i) - uint (posXArr ?s' ! j)\<bar> > uint spriteSize + 1
           \<or> \<bar>uint (posYArr ?s' ! i) - uint (posYArr ?s' ! j)\<bar> > uint spriteSize + 1"
  proof cases
    case new_i
    with vis have "onScreen s ! j" by simp
    from far [OF j this] new_i len show ?thesis by simp
  next
    case new_j
    with vis have "onScreen s ! i" by simp
    from far [OF i this] new_j len show ?thesis
      by (simp add: abs_minus_commute)
  next
    case old
    with vis have "onScreen s ! i" "onScreen s ! j" by simp_all
    with inv i j vis old show ?thesis
      by (simp add: no_overlap_def)
  qed
qed

lemma spriteTick_sized:
  assumes "sized s" and "spriteTick n e s w = Ret t w'"
  shows "sized (slots t)"
proof (cases "onScreen s ! pickedSlot e w")
  case True
  from spriteTick_visible [OF True, of n] assms show ?thesis
    by (auto simp: sized_def)
next
  case False
  from spriteTick_invisible [OF False assms(2)] assms(1) show ?thesis
    by (auto simp: sized_def)
qed

lemma spriteTick_no_overlap:
  assumes "sized s" and "no_overlap s" and "spriteTick n e s w = Ret t w'"
  shows "no_overlap (slots t)"
proof (cases "onScreen s ! pickedSlot e w")
  case True
  from spriteTick_visible [OF True, of n] assms(3) no_overlap_erase [OF assms(2)]
  show ?thesis by auto
next
  case False
  from spriteTick_invisible [OF False assms(3)]
    no_overlap_place [OF assms(1,2) pickedSlot_less] assms(2)
  show ?thesis by auto
qed

section \<open>Placement, toggling and the message band\<close>

lemma in_bounds_uint:
  "in_bounds x y \<Longrightarrow> uint x < 208 \<and> uint y < 188"
proof -
  assume "in_bounds x y"
  then have "unat x < 208" "unat y < 188"
    by (simp_all add: in_bounds_def unat_xBorderSprite unat_yBorderSprite)
  moreover have "uint x = int (unat x)" "uint y = int (unat y)"
    by (rule uint_nat)+
  ultimately show ?thesis
    by linarith
qed

lemma spriteTick_completed:
  assumes inv: "\<not> onScreen s ! pickedSlot e w"
    and run: "spriteTick n e s w = Ret (Completed s') w'"
  obtains xPos yPos where
    "s' = s\<lparr>posXArr := (posXArr s)[pickedSlot e w := xPos],
              posYArr := (posYArr s)[pickedSlot e w := yPos],
              onScreen := (onScreen s)[pickedSlot e w := True]\<rparr>"
    and "in_bounds xPos yPos"
    and "tft w' = tft w @ [(instant w' - 2, DrawBMP ''/pattern/heart.bmp'' xPos yPos)]"
proof -
  have "Completed s' \<noteq> Aborted s"
    by simp
  with spriteTick_invisible [OF inv run] have
    "\<exists>xPos yPos.
       Completed s' = Completed (s\<lparr>posXArr := (posXArr s)[pickedSlot e w := xPos],
                                    posYArr := (posYArr s)[pickedSlot e w := yPos],
                                    onScreen := (onScreen s)[pickedSlot e w := True]\<rparr>)
       \<and> in_bounds xPos yPos
       \<and> (\<forall>i \<in> {0..<unat maxSprites}.
             \<not> (onScreen s ! i \<and> collisionX s i xPos \<and> collisionY s i yPos))
       \<and> tft w' = tft w @ [(instant w' - 2, DrawBMP ''/pattern/heart.bmp'' xPos yPos)]"
    by (elim disjE) simp_all
  then obtain xPos yPos where
    c: "Completed s' = Completed (s\<lparr>posXArr := (posXArr s)[pickedSlot e w := xPos],
                                    posYArr := (posYArr s)[pickedSlot e w := yPos],
                                    onScreen := (onScreen s)[pickedSlot e w := True]\<rparr>)"
    and b: "in_bounds xPos yPos"
    and d: "tft w' = tft w @ [(instant w' - 2, DrawBMP ''/pattern/heart.bmp'' xPos yPos)]"
    by (elim exE conjE)
  from c have "s' = s\<lparr>posXArr := (posXArr s)[pickedSlot e w := xPos],
                        posYArr := (posYArr s)[pickedSlot e w := yPos],
                        onScreen := (onScreen s)[pickedSlot e w := True]\<rparr>"
    by (simp only: tick.inject)
  from that [OF this b d] show thesis .
qed

lemma spriteTick_placed:
  assumes sz: "sized s" and inv: "\<not> onScreen s ! pickedSlot e w"
    and run: "spriteTick n e s w = Ret (Completed s') w'"
  shows "in_bounds (posXArr s' ! pickedSlot e w) (posYArr s' ! pickedSlot e w)
         \<and> onScreen s' ! pickedSlot e w
         \<and> tft w' = tft w @ [(instant w' - 2, DrawBMP ''/pattern/heart.bmp''
                               (posXArr s' ! pickedSlot e w) (posYArr s' ! pickedSlot e w))]"
proof -
  have len: "pickedSlot e w < length (posXArr s)" "pickedSlot e w < length (posYArr s)"
    "pickedSlot e w < length (onScreen s)"
    using sz pickedSlot_less [of e w] by (simp_all add: sized_def)
  from inv run obtain xPos yPos where
    "s' = s\<lparr>posXArr := (posXArr s)[pickedSlot e w := xPos],
              posYArr := (posYArr s)[pickedSlot e w := yPos],
              onScreen := (onScreen s)[pickedSlot e w := True]\<rparr>"
    and "in_bounds xPos yPos"
    and "tft w' = tft w @ [(instant w' - 2, DrawBMP ''/pattern/heart.bmp'' xPos yPos)]"
    by (rule spriteTick_completed)
  with len show ?thesis
    by simp
qed

lemma spriteTick_toggles:
  assumes sz: "sized s" and run: "spriteTick n e s w = Ret (Completed s') w'"
  shows "onScreen s' = (onScreen s)[pickedSlot e w := \<not> onScreen s ! pickedSlot e w]"
proof (cases "onScreen s ! pickedSlot e w")
  case True
  from spriteTick_visible [OF True, of n] run True show ?thesis by auto
next
  case False
  from False run obtain xPos yPos where
    "s' = s\<lparr>posXArr := (posXArr s)[pickedSlot e w := xPos],
              posYArr := (posYArr s)[pickedSlot e w := yPos],
              onScreen := (onScreen s)[pickedSlot e w := True]\<rparr>"
    by (rule spriteTick_completed)
  with False show ?thesis by simp
qed

lemma clear_of_message_init: "clear_of_message init_sprites"
  by (simp add: clear_of_message_def init_sprites_def)

lemma spriteTick_clear_of_message:
  assumes sz: "sized s" and inv: "clear_of_message s" and run: "spriteTick n e s w = Ret t w'"
  shows "clear_of_message (slots t)"
proof (cases "onScreen s ! pickedSlot e w")
  case True
  from spriteTick_visible [OF True, of n] run
  have t: "slots t = s\<lparr>onScreen := (onScreen s)[pickedSlot e w := False]\<rparr>"
    by auto
  show ?thesis
    unfolding t clear_of_message_def
  proof (intro ballI impI)
    fix i
    assume i: "i \<in> {0..<unat maxSprites}"
      and "onScreen (s\<lparr>onScreen := (onScreen s)[pickedSlot e w := False]\<rparr>) ! i"
    then have "onScreen s ! i"
      by (auto dest: nth_update_False)
    with inv i show
      "uint (posYArr (s\<lparr>onScreen := (onScreen s)[pickedSlot e w := False]\<rparr>) ! i) \<le> 187
       \<and> uint (posYArr (s\<lparr>onScreen := (onScreen s)[pickedSlot e w := False]\<rparr>) ! i)
            + uint spriteSize - 1 \<le> 218
       \<and> uint (posYArr (s\<lparr>onScreen := (onScreen s)[pickedSlot e w := False]\<rparr>) ! i)
            + uint spriteSize - 1 < 220"
      by (simp add: clear_of_message_def)
  qed
next
  case False
  have len: "pickedSlot e w < length (posYArr s)"
    using sz pickedSlot_less [of e w] by (simp add: sized_def)
  from spriteTick_invisible [OF False run] show ?thesis
  proof
    assume "t = Aborted s \<and> changeButtonState w' \<and> tft w' = tft w"
    with inv show ?thesis by simp
  next
    assume "\<exists>xPos yPos.
      t = Completed (s\<lparr>posXArr := (posXArr s)[pickedSlot e w := xPos],
                       posYArr := (posYArr s)[pickedSlot e w := yPos],
                       onScreen := (onScreen s)[pickedSlot e w := True]\<rparr>)
      \<and> in_bounds xPos yPos
      \<and> (\<forall>i \<in> {0..<unat maxSprites}.
            \<not> (onScreen s ! i \<and> collisionX s i xPos \<and> collisionY s i yPos))
      \<and> tft w' = tft w @ [(instant w' - 2, DrawBMP ''/pattern/heart.bmp'' xPos yPos)]"
    then obtain xPos yPos where
      t0: "t = Completed (s\<lparr>posXArr := (posXArr s)[pickedSlot e w := xPos],
                       posYArr := (posYArr s)[pickedSlot e w := yPos],
                       onScreen := (onScreen s)[pickedSlot e w := True]\<rparr>)"
      and bnd: "in_bounds xPos yPos"
      by blast
    have t: "slots t = s\<lparr>posXArr := (posXArr s)[pickedSlot e w := xPos],
                       posYArr := (posYArr s)[pickedSlot e w := yPos],
                       onScreen := (onScreen s)[pickedSlot e w := True]\<rparr>"
      by (simp add: t0)
    have y: "uint yPos < 188"
      using in_bounds_uint [OF bnd] by simp
    show ?thesis
      unfolding t clear_of_message_def
    proof (intro ballI impI)
      fix i
      assume i: "i \<in> {0..<unat maxSprites}"
        and vis: "onScreen (s\<lparr>posXArr := (posXArr s)[pickedSlot e w := xPos],
                       posYArr := (posYArr s)[pickedSlot e w := yPos],
                       onScreen := (onScreen s)[pickedSlot e w := True]\<rparr>) ! i"
      show "uint (posYArr (s\<lparr>posXArr := (posXArr s)[pickedSlot e w := xPos],
                       posYArr := (posYArr s)[pickedSlot e w := yPos],
                       onScreen := (onScreen s)[pickedSlot e w := True]\<rparr>) ! i) \<le> 187
          \<and> uint (posYArr (s\<lparr>posXArr := (posXArr s)[pickedSlot e w := xPos],
                       posYArr := (posYArr s)[pickedSlot e w := yPos],
                       onScreen := (onScreen s)[pickedSlot e w := True]\<rparr>) ! i)
               + uint spriteSize - 1 \<le> 218
          \<and> uint (posYArr (s\<lparr>posXArr := (posXArr s)[pickedSlot e w := xPos],
                       posYArr := (posYArr s)[pickedSlot e w := yPos],
                       onScreen := (onScreen s)[pickedSlot e w := True]\<rparr>) ! i)
               + uint spriteSize - 1 < 220"
      proof (cases "i = pickedSlot e w")
        case True
        with len y show ?thesis by (simp add: spriteSize_def)
      next
        case False
        with vis have "onScreen s ! i" by simp
        with inv i False show ?thesis by (simp add: clear_of_message_def)
      qed
    qed
  qed
qed

section \<open>Leaving the collision loop on the button\<close>

lemma instant_displayImageTFT_at:
  "instant (displayImageTFT_at e f x y w) = instant w + 2"
  by (simp add: displayImageTFT_at_def tft_call_def serial_call_def advance_instant Let_def)

text \<open>
  A tick that places a sprite has seen the flag down at the last test of the collision
  loop: no edge has arrived from the tick's start to that test, which lies twelve instants
  before the tick's end (the ten slots of the last pass, the draw and its status line).
\<close>

lemma spriteTick_quiet:
  assumes inv: "\<not> onScreen s ! pickedSlot e w"
    and run: "spriteTick n e s w = Ret (Completed s') w'"
  shows "\<not> changeButtonState w \<and> (\<forall>k \<in> {instant w..<instant w' - 12}. \<not> isr e k)"
proof -
  obtain r w1 where r: "random e (unat maxSprites) w = (r, w1)"
    by (cases "random e (unat maxSprites) w") auto
  obtain rx w2 where rx: "random e (unat xBorderSprite) w1 = (rx, w2)"
    by (cases "random e (unat xBorderSprite) w1") auto
  obtain ry w3 where ry: "random e (unat yBorderSprite) w2 = (ry, w3)"
    by (cases "random e (unat yBorderSprite) w2") auto
  have k: "pickedSlot e w = unat (word_of_nat r :: u16)"
    using r by (simp add: pickedSlot_def)
  have bnd: "in_bounds (word_of_nat rx) (word_of_nat ry)"
    using unat_random_x [OF rx] unat_random_y [OF ry]
    by (simp add: in_bounds_def unat_xBorderSprite unat_yBorderSprite)
  have el3: "elapses e w w3"
    using elapses_random [OF r] elapses_random [OF rx] elapses_random [OF ry]
    by (blast intro: elapses_trans)
  show ?thesis
  proof (cases "retry n e s (word_of_nat rx) (word_of_nat ry) w3")
    case (Busy w4)
    with inv run r rx ry k show ?thesis
      by (simp add: spriteTick_def Let_def)
  next
    case (Ret c w4)
    show ?thesis
    proof (cases c)
      case None
      with Ret inv run r rx ry k show ?thesis
        by (simp add: spriteTick_def Let_def)
    next
      case (Some p)
      obtain xPos yPos where p: "p = (xPos, yPos)"
        by (cases p) auto
      from Ret Some p inv run r rx ry k have
        w': "w' = displayImageTFT_at e ''/pattern/heart.bmp'' (uint xPos) (uint yPos) w4"
        by (simp add: spriteTick_def Let_def)
      from retry_accept [OF Ret [unfolded Some p] bnd] have
        down: "\<not> changeButtonState w3"
        and quiet: "\<forall>k \<in> {instant w3..<instant w4 - unat maxSprites}. \<not> isr e k"
        by simp_all
      from el3 down have
        before: "\<not> changeButtonState w" "\<forall>k \<in> {instant w..<instant w3}. \<not> isr e k"
        by (auto simp: elapses_def)
      have last: "instant w' - 12 = instant w4 - unat maxSprites"
        by (simp add: w' instant_displayImageTFT_at unat_maxSprites)
      have "\<forall>k \<in> {instant w..<instant w' - 12}. \<not> isr e k"
      proof
        fix k
        assume "k \<in> {instant w..<instant w' - 12}"
        then have "k \<in> {instant w..<instant w3} \<or> k \<in> {instant w3..<instant w4 - unat maxSprites}"
          by (auto simp: last)
        with before(2) quiet show "\<not> isr e k"
          by blast
      qed
      with before(1) show ?thesis
        by simp
    qed
  qed
qed

lemma retry_flag_up: "changeButtonState w \<Longrightarrow> retry (Suc n) e s xPos yPos w = Ret None w"
  by simp

text \<open>
  The button's edge arrives during a pass of the for loop that ends with the collision
  flag up: the next iteration returns at once.
\<close>

lemma retry_flag_raised:
  assumes down: "\<not> changeButtonState w"
    and scan: "scanSprites e s [0..<unat maxSprites] xPos yPos False w = (x1, y1, c1, w1)"
    and c1: c1
    and edge: "\<exists>k \<in> {instant w..<instant w1}. isr e k"
  shows "retry (Suc (Suc n)) e s xPos yPos w = Ret None w1"
proof -
  have "changeButtonState w1"
    using scanSprites_elapses [OF scan] edge by (simp add: elapses_def)
  with down scan c1 show ?thesis
    by simp
qed

lemma spriteTick_aborted:
  assumes "spriteTick n e s w = Ret (Aborted s') w'"
  shows "s' = s \<and> tft w' = tft w \<and> changeButtonState w'"
proof (cases "onScreen s ! pickedSlot e w")
  case True
  from spriteTick_visible [OF True, of n] assms show ?thesis
    by auto
next
  case False
  have "Aborted s' \<noteq> Completed x" for x
    by simp
  with spriteTick_invisible [OF False assms] show ?thesis
    by (elim disjE exE conjE) simp_all
qed

section \<open>Running the sketch on a concrete board\<close>

lemmas prim_defs = random_def advance_def modeChangeInterupt_def serial_call_def tft_call_def
  displayImageTFT_at_def millis_def yield_def Let_def

lemmas const_defs = maxSprites_def xBorderSprite_def yBorderSprite_def screenWidth_def
  screenLength_def spriteSize_def

lemma upt_10: "[0..<10] = [0, 1, 2, 3, 4, 5, 6, 7, 8, 9::nat]"
  by (simp add: upt_rec)

lemmas demo_defs = calm_board_def pressed_board_def board_def power_on_def after_place_def
  after_erase_def after_abort_def before_retry_def one_sprite_def two_sprites_def
  erased_sprites_def touched_board_def second_test_def accepted_def after_touch_def
  hasty_board_def due_def stopped_def

text \<open>
  A tick on \<open>calm_board\<close>: slot 3 is selected, the first candidate (20, 20) collides
  with the sprite at (10, 10), the next one (100, 100) is accepted.
\<close>

lemma demo_place:
  "spriteTick (Suc (Suc 0)) calm_board one_sprite power_on = Ret (Completed two_sprites) after_place"
  by (simp add: spriteTick_def upt_10 prim_defs const_defs demo_defs collisionX_def
      collisionY_def)

text \<open>The next tick selects slot 3 again and erases it.\<close>

lemma demo_erase:
  "spriteTick 0 calm_board two_sprites after_place = Ret (Completed erased_sprites) after_erase"
  by (simp add: spriteTick_def upt_10 prim_defs const_defs demo_defs)

text \<open>
  The same tick on \<open>pressed_board\<close>: the button's edge arrives while the collision of
  the first pass is reported, and the next iteration of the collision loop returns.
\<close>

lemma demo_abort:
  "spriteTick (Suc (Suc 0)) pressed_board one_sprite power_on = Ret (Aborted one_sprite) after_abort"
  by (simp add: spriteTick_def upt_10 prim_defs const_defs demo_defs collisionX_def
      collisionY_def)

lemma demo_scan:
  "scanSprites pressed_board one_sprite [0..<unat maxSprites] 20 20 False before_retry =
     (100, 100, True, after_abort)"
  by (simp add: upt_10 prim_defs const_defs demo_defs collisionX_def collisionY_def)

lemma demo_picks:
  "pickedSlot calm_board power_on = 3" "pickedSlot calm_board after_place = 3"
  by (simp_all add: pickedSlot_def prim_defs const_defs demo_defs)

lemma sized_one_sprite: "sized one_sprite"
  by (simp add: sized_def one_sprite_def maxSprites_def)

lemma no_overlap_one_sprite: "no_overlap one_sprite"
  by (simp add: no_overlap_def one_sprite_def maxSprites_def atLeastLessThan_upt upt_10)

section \<open>The centred display and the start-up\<close>

lemma displayImageTFT_output:
  assumes "bmpDimensions e filename 0 0 = (stat, width, height)"
  shows "tft (displayImageTFT e filename w) =
           tft w @ [(instant w + 2,
                     DrawBMP filename
                       (word_of_int (c_div (sint (ucast screenWidth - width)) 2))
                       (word_of_int (c_div (sint (ucast screenLength - height)) 2)))]
         \<and> serial (displayImageTFT e filename w) =
           serial w @ [PrintStatus stat,
                       PrintStatus (drawBMP e filename
                         (word_of_int (c_div (sint (ucast screenWidth - width)) 2))
                         (word_of_int (c_div (sint (ucast screenLength - height)) 2)))]
         \<and> instant (displayImageTFT e filename w) = instant w + 4"
  using assms
  by (simp add: displayImageTFT_def tft_call_def serial_call_def advance_def
      modeChangeInterupt_def Let_def)

lemma centre_of_screen:
  "(word_of_int (c_div (sint (ucast screenWidth - (0::u32))) 2) :: u16) = 120"
  "(word_of_int (c_div (sint (ucast screenLength - (0::u32))) 2) :: u16) = 160"
  by (simp_all add: screenWidth_def screenLength_def c_div_def)

lemma advance_fields:
  "tft (advance e w) = tft w" "serial (advance e w) = serial w"
  "currentState (advance e w) = currentState w"
  "prevStateChange (advance e w) = prevStateChange w"
  "draws (advance e w) = draws w"
  by (simp_all add: advance_def modeChangeInterupt_def)

lemma tft_call_fields:
  "tft (tft_call e g w) = tft w @ [(instant w, g)]" "serial (tft_call e g w) = serial w"
  "currentState (tft_call e g w) = currentState w"
  "prevStateChange (tft_call e g w) = prevStateChange w"
  "draws (tft_call e g w) = draws w"
  "instant (tft_call e g w) = Suc (instant w)"
  by (simp_all add: tft_call_def advance_fields advance_instant)

lemma serial_call_fields:
  "tft (serial_call e x w) = tft w" "serial (serial_call e x w) = serial w @ [x]"
  "currentState (serial_call e x w) = currentState w"
  "prevStateChange (serial_call e x w) = prevStateChange w"
  "draws (serial_call e x w) = draws w"
  "instant (serial_call e x w) = Suc (instant w)"
  by (simp_all add: serial_call_def advance_fields advance_instant)

lemmas call_fields = advance_fields advance_instant tft_call_fields serial_call_fields

lemma idle_busy:
  "\<exists>w'. idle n e w = Busy w' \<and> tft w' = tft w \<and> serial w' = serial w
        \<and> currentState w' = currentState w \<and> prevStateChange w' = prevStateChange w
        \<and> instant w' = instant w + n"
proof (induction n arbitrary: w)
  case 0
  show ?case by simp
next
  case (Suc n)
  have y: "tft (yield e w) = tft w" "serial (yield e w) = serial w"
    "currentState (yield e w) = currentState w"
    "prevStateChange (yield e w) = prevStateChange w"
    "instant (yield e w) = Suc (instant w)"
    by (simp_all add: yield_def call_fields)
  from Suc.IH [of "yield e w"] obtain w' where
    "idle n e (yield e w) = Busy w'" "tft w' = tft (yield e w)"
    "serial w' = serial (yield e w)" "currentState w' = currentState (yield e w)"
    "prevStateChange w' = prevStateChange (yield e w)"
    "instant w' = instant (yield e w) + n"
    by blast
  with y show ?case
    by simp
qed

lemma setup_sketch_no_card:
  assumes "\<not> sdBegin e"
  shows "\<exists>w'. setup_sketch n e w = Busy w'
        \<and> tft w' = tft w @ error_screen (instant w)
        \<and> serial w' = serial w @ [SerialBegin 9600, Print ''Initializing filesystem...'',
                                    Println ''SD begin() failed'']
        \<and> currentState w' = currentState w \<and> prevStateChange w' = prevStateChange w
        \<and> instant w' = instant w + 12 + n"
proof -
  define w0 where "w0 = errorMode e ''SD card not detected''
      (serial_call e (Println ''SD begin() failed'')
        (advance e (serial_call e (Print ''Initializing filesystem...'')
          (tft_call e TftBegin (serial_call e (SerialBegin 9600) w)))))"
  have s: "setup_sketch n e w = idle n e w0"
    using assms by (simp add: setup_sketch_def w0_def Let_def)
  have w0: "tft w0 = tft w @ error_screen (instant w)"
    "serial w0 = serial w @ [SerialBegin 9600, Print ''Initializing filesystem...'',
                               Println ''SD begin() failed'']"
    "currentState w0 = currentState w" "prevStateChange w0 = prevStateChange w"
    "instant w0 = instant w + 12"
    by (simp_all add: w0_def errorMode_def error_screen_def call_fields Let_def)
  from idle_busy [of n e w0] obtain w' where
    "idle n e w0 = Busy w'" "tft w' = tft w0" "serial w' = serial w0"
    "currentState w' = currentState w0" "prevStateChange w' = prevStateChange w0"
    "instant w' = instant w0 + n"
    by blast
  with w0 s show ?thesis
    by simp
qed

section \<open>Running the slideshow and the state machine\<close>

lemmas budget_numeral =
  retry.simps(2) [of "pred_numeral v", folded numeral_eq_Suc]
  patternLoop.simps(2) [of "pred_numeral v", folded numeral_eq_Suc]
  showEntries.simps(2,3) [of "pred_numeral v", folded numeral_eq_Suc]
  lastDelay.simps(2) [of "pred_numeral v", folded numeral_eq_Suc]
  idle.simps(2) [of "pred_numeral v", folded numeral_eq_Suc]
  loops.simps(2) [of "pred_numeral v", folded numeral_eq_Suc]
  for v

lemmas slideshow_defs = displayAllImagesDir_def sd_open_def openNextFile_def getName_def
  nameLengthMax_def
  displayImageTFT_def rootDir_def slideshowRefreshTime_def c_div_def screenWidth_def
  screenLength_def

lemmas machine_defs = loop_def stateChange_def patternMode_def maxStates_def refreshTime_def
  BLACK_def

lemma demo_waiting:
  "displayAllImagesDir 20 waiting_board power_on = Ret () waiting_end"
  by (simp add: waiting_board_def waiting_end_def board_def power_on_def slideshow_defs
      budget_numeral prim_defs)

lemma demo_late:
  "displayAllImagesDir 20 late_board power_on = Ret () late_end"
  by (simp add: late_board_def late_end_def board_def power_on_def slideshow_defs
      budget_numeral prim_defs)

lemma demo_bounce_seen:
  "loops 1 2 bouncy_board power_on = Ret () bounce_seen"
  by (simp add: bouncy_board_def bounce_seen_def board_def power_on_def slideshow_defs
      machine_defs budget_numeral prim_defs)

lemma demo_bounce_again:
  "loops 2 2 bouncy_board power_on = Ret () bounce_again"
  by (simp add: bouncy_board_def bounce_again_def board_def power_on_def slideshow_defs
      machine_defs budget_numeral prim_defs)

section \<open>The debounced change of state\<close>

lemma transitions_fields:
  "transitions (advance e w) = transitions w"
  "transitions (w\<lparr>changeButtonState := b\<rparr>) = transitions w"
  "transitions (w\<lparr>currentState := c\<rparr>) = transitions w"
  "transitions (w\<lparr>prevStateChange := t\<rparr>) = transitions w"
  "transitions (serial_call e (Println ''State Change'') w) = Suc (transitions w)"
  by (simp_all add: transitions_def call_fields)

text \<open>The three ways through the first statement of \<^verbatim>\<open>loop\<close>.\<close>

lemma stateChange_down: "\<not> changeButtonState w \<Longrightarrow> stateChange e w = w"
  by (simp add: stateChange_def)

lemma stateChange_early:
  assumes "changeButtonState w" and "clock e (instant w) - prevStateChange w < 50"
  shows "stateChange e w = (advance e w)\<lparr>changeButtonState := False\<rparr>"
  using assms by (simp add: stateChange_def millis_def call_fields not_le [symmetric])

lemma stateChange_accept:
  assumes "changeButtonState w" and "50 \<le> clock e (instant w) - prevStateChange w"
  shows "currentState (stateChange e w) =
           (if unat (currentState w + 1) \<ge> unat maxStates then 0 else currentState w + 1)"
    and "transitions (stateChange e w) = Suc (transitions w)"
    and "prevStateChange (stateChange e w) = clock e (instant w + 2)"
    and "changeButtonState (stateChange e w) = isr e (instant w + 2)"
    and "instant (stateChange e w) = instant w + 3"
  using assms
  by (simp_all add: stateChange_def millis_def call_fields transitions_fields Let_def
      advance_flag)

section \<open>The slideshow when nobody touches the button\<close>

lemma advance_quiet: "\<forall>k. \<not> isr e k \<Longrightarrow> advance e w = w\<lparr>instant := Suc (instant w)\<rparr>"
  by (simp add: advance_def)

lemma displayImageTFT_quiet:
  assumes "\<forall>k. \<not> isr e k"
  shows "tft (displayImageTFT e name w) = tft w @ [(instant w + 2, centred e name)]"
    and "instant (displayImageTFT e name w) = instant w + 4"
    and "changeButtonState (displayImageTFT e name w) = changeButtonState w"
  using assms
  by (simp_all add: displayImageTFT_def centred_def tft_call_def serial_call_def advance_quiet
      Let_def split: prod.splits)

lemma showEntries_wait:
  assumes "\<forall>k. \<not> isr e k" and "\<not> changeButtonState w"
    and "\<forall>j<J. clock e (instant w + 2 * j) - t < word_of_int slideshowRefreshTime"
  shows "showEntries (J + n) e (Some f) dir t w =
           showEntries n e (Some f) dir t (w\<lparr>instant := instant w + 2 * J\<rparr>)"
  using assms(2,3)
proof (induction J arbitrary: w)
  case 0
  then show ?case by simp
next
  case (Suc J)
  from Suc.prems(2) have now: "\<not> word_of_int slideshowRefreshTime \<le> clock e (instant w) - t"
    by (auto simp: not_le dest: spec [of _ 0])
  have later: "\<forall>j<J. clock e (instant (w\<lparr>instant := instant w + 2\<rparr>) + 2 * j) - t
                 < word_of_int slideshowRefreshTime"
  proof (intro allI impI)
    fix j
    assume "j < J"
    then have "Suc j < Suc J" by simp
    with Suc.prems(2) have "clock e (instant w + 2 * Suc j) - t < word_of_int slideshowRefreshTime"
      by blast
    then show "clock e (instant (w\<lparr>instant := instant w + 2\<rparr>) + 2 * j) - t
                 < word_of_int slideshowRefreshTime"
      by (simp add: add.assoc)
  qed
  have flag: "\<not> changeButtonState (w\<lparr>instant := instant w + 2\<rparr>)"
    using Suc.prems(1) by simp
  have "showEntries (Suc J + n) e (Some f) dir t w =
          showEntries (J + n) e (Some f) dir t (w\<lparr>instant := instant w + 2\<rparr>)"
    using Suc.prems(1) now assms(1)
    by (simp add: millis_def yield_def advance_quiet)
  also have "\<dots> = showEntries n e (Some f) dir t
                     ((w\<lparr>instant := instant w + 2\<rparr>)\<lparr>instant := instant w + 2 + 2 * J\<rparr>)"
    using Suc.IH [OF flag later] by simp
  finally show ?case
    by simp
qed

lemma lastDelay_wait:
  assumes "\<forall>k. \<not> isr e k"
    and "\<forall>j<J. clock e (instant w + 2 * j) - t < word_of_int slideshowRefreshTime"
  shows "lastDelay (J + n) e t w = lastDelay n e t (w\<lparr>instant := instant w + 2 * J\<rparr>)"
  using assms(2)
proof (induction J arbitrary: w)
  case 0
  then show ?case by simp
next
  case (Suc J)
  from Suc.prems have now: "\<not> word_of_int slideshowRefreshTime \<le> clock e (instant w) - t"
    by (auto simp: not_le dest: spec [of _ 0])
  have later: "\<forall>j<J. clock e (instant (w\<lparr>instant := instant w + 2\<rparr>) + 2 * j) - t
                 < word_of_int slideshowRefreshTime"
  proof (intro allI impI)
    fix j
    assume "j < J"
    then have "Suc j < Suc J" by simp
    with Suc.prems have "clock e (instant w + 2 * Suc j) - t < word_of_int slideshowRefreshTime"
      by blast
    then show "clock e (instant (w\<lparr>instant := instant w + 2\<rparr>) + 2 * j) - t
                 < word_of_int slideshowRefreshTime"
      by (simp add: add.assoc)
  qed
  have "lastDelay (Suc J + n) e t w = lastDelay (J + n) e t (w\<lparr>instant := instant w + 2\<rparr>)"
    using now assms(1)
    by (simp add: millis_def yield_def advance_quiet)
  also have "\<dots> = lastDelay n e t
                     ((w\<lparr>instant := instant w + 2\<rparr>)\<lparr>instant := instant w + 2 + 2 * J\<rparr>)"
    using Suc.IH [OF later] by simp
  finally show ?case
    by simp
qed

lemma lastDelay_done:
  assumes "\<forall>k. \<not> isr e k"
    and "word_of_int slideshowRefreshTime \<le> clock e (instant w) - t"
  shows "lastDelay (Suc n) e t w = Ret () (w\<lparr>instant := Suc (instant w)\<rparr>)"
  using assms by (simp add: millis_def advance_quiet)

text \<open>The iteration that shows the next entry \<open>f\<close>, with \<open>dir\<close> still to come.\<close>

lemma showEntries_show:
  assumes "\<forall>k. \<not> isr e k" and "\<not> changeButtonState w"
    and "word_of_int slideshowRefreshTime \<le> clock e (instant w) - t"
    and "length f < unat nameLengthMax"
  shows "showEntries (Suc n) e (Some f) dir t w =
           showEntries n e (case dir of [] \<Rightarrow> None | g # rest \<Rightarrow> Some g) (tl dir)
             (clock e (instant w + 7))
             ((displayImageTFT e (rootDir @ f) (w\<lparr>instant := instant w + 2\<rparr>))
                \<lparr>instant := instant w + 9\<rparr>)"
  using assms
  by (simp add: millis_def yield_def getName_def openNextFile_def advance_quiet
      displayImageTFT_quiet Let_def add.commute split: list.splits)

lemma showEntries_next:
  assumes quiet: "\<forall>k. \<not> isr e k" and down: "\<not> changeButtonState w"
    and first: "first_poll e (instant w) t j"
    and fits: "length f < unat nameLengthMax"
  shows "showEntries (j + Suc n) e (Some f) dir t w =
           showEntries n e (case dir of [] \<Rightarrow> None | g # rest \<Rightarrow> Some g) (tl dir)
             (clock e (instant w + 2 * j + 7))
             ((displayImageTFT e (rootDir @ f) (w\<lparr>instant := instant w + 2 * j + 2\<rparr>))
                \<lparr>instant := instant w + 2 * j + 9\<rparr>)"
proof -
  from first have
    early: "\<forall>i<j. clock e (instant w + 2 * i) - t < word_of_int slideshowRefreshTime"
    and hit: "word_of_int slideshowRefreshTime \<le> clock e (instant w + 2 * j) - t"
    by (simp_all add: first_poll_def)
  have "showEntries (j + Suc n) e (Some f) dir t w =
          showEntries (Suc n) e (Some f) dir t (w\<lparr>instant := instant w + 2 * j\<rparr>)"
    by (rule showEntries_wait [OF quiet down early])
  also have "\<dots> =
      showEntries n e (case dir of [] \<Rightarrow> None | g # rest \<Rightarrow> Some g) (tl dir)
        (clock e (instant (w\<lparr>instant := instant w + 2 * j\<rparr>) + 7))
        ((displayImageTFT e (rootDir @ f)
            ((w\<lparr>instant := instant w + 2 * j\<rparr>)
               \<lparr>instant := instant (w\<lparr>instant := instant w + 2 * j\<rparr>) + 2\<rparr>))
           \<lparr>instant := instant (w\<lparr>instant := instant w + 2 * j\<rparr>) + 9\<rparr>)"
    using hit down fits by (intro showEntries_show [OF quiet]) simp_all
  finally show ?thesis
    by simp
qed

lemma lastDelay_run:
  assumes quiet: "\<forall>k. \<not> isr e k" and first: "first_poll e (instant w) t j"
  shows "lastDelay (j + Suc n) e t w = Ret () (w\<lparr>instant := instant w + 2 * j + 1\<rparr>)"
proof -
  from first have
    early: "\<forall>i<j. clock e (instant w + 2 * i) - t < word_of_int slideshowRefreshTime"
    and hit: "word_of_int slideshowRefreshTime \<le> clock e (instant w + 2 * j) - t"
    by (simp_all add: first_poll_def)
  have "lastDelay (j + Suc n) e t w = lastDelay (Suc n) e t (w\<lparr>instant := instant w + 2 * j\<rparr>)"
    by (rule lastDelay_wait [OF quiet early])
  also have "\<dots> = Ret () ((w\<lparr>instant := instant w + 2 * j\<rparr>)
                              \<lparr>instant := Suc (instant (w\<lparr>instant := instant w + 2 * j\<rparr>))\<rparr>)"
    using hit by (intro lastDelay_done [OF quiet]) simp
  finally show ?thesis
    by simp
qed

lemma displayAllImagesDir_first:
  assumes files: "files e = f # dir" and quiet: "\<forall>k. \<not> isr e k"
    and fits: "length f < unat nameLengthMax"
  shows "displayAllImagesDir n e w =
      (case showEntries n e (case dir of [] \<Rightarrow> None | g # rest \<Rightarrow> Some g) (tl dir)
              (clock e (Suc (Suc (instant w))))
              ((displayImageTFT e (rootDir @ f) (w\<lparr>instant := Suc (Suc (Suc (Suc (instant w))))\<rparr>))
                 \<lparr>instant := instant w + 9\<rparr>) of
         Busy w \<Rightarrow> Busy w
       | Ret None w \<Rightarrow> Ret () w
       | Ret (Some time_1) w \<Rightarrow> lastDelay n e time_1 w)"
  using files quiet fits
  by (simp add: displayAllImagesDir_def sd_open_def openNextFile_def getName_def millis_def
      advance_quiet displayImageTFT_quiet Let_def add.commute split: list.splits)

lemma steady_clock: "clock steady_board k = word_of_nat k"
  by (simp add: steady_board_def board_def)

lemma u32_of_nat_less:
  assumes "x < 2 ^ 32"
  shows "(word_of_nat x :: u32) < 4000 \<longleftrightarrow> x < 4000"
proof -
  have "unat (word_of_nat x :: u32) = x"
    using assms by (simp add: unat_of_nat)
  then show ?thesis
    by (simp add: word_less_nat_alt)
qed

lemma steady_elapsed:
  assumes "t \<le> k" and "k - t < 2 ^ 32"
  shows "clock steady_board k - word_of_nat t < word_of_int slideshowRefreshTime
           \<longleftrightarrow> k - t < 4000"
proof -
  define x where "x = k - t"
  have "clock steady_board k - word_of_nat t = (word_of_nat x :: u32)"
    unfolding x_def using assms(1) by (simp only: steady_clock of_nat_diff)
  moreover have "(word_of_nat x :: u32) < 4000 \<longleftrightarrow> x < 4000"
    using assms(2) by (intro u32_of_nat_less) (simp add: x_def)
  ultimately show ?thesis
    by (simp add: slideshowRefreshTime_def x_def)
qed

lemma steady_first_poll:
  assumes "t \<le> p" and "p + 2 * j < 2 ^ 32"
    and "t + 4000 \<le> p + 2 * j" and "p + 2 * j < t + 4002"
  shows "first_poll steady_board p (word_of_nat t) j"
  unfolding first_poll_def
proof (intro conjI allI impI)
  fix i
  assume "i < j"
  with assms have d: "p + 2 * i - t < 4000" "t \<le> p + 2 * i" "p + 2 * i - t < 2 ^ 32"
    by simp_all
  from steady_elapsed [OF d(2,3)] d(1)
  show "clock steady_board (p + 2 * i) - word_of_nat t < word_of_int slideshowRefreshTime"
    by simp
next
  from assms have d: "\<not> p + 2 * j - t < 4000" "t \<le> p + 2 * j" "p + 2 * j - t < 2 ^ 32"
    by simp_all
  from steady_elapsed [OF d(2,3)] d(1)
  show "word_of_int slideshowRefreshTime \<le> clock steady_board (p + 2 * j) - word_of_nat t"
    by (simp add: not_less)
qed

lemma steady_polls:
  "first_poll steady_board 9 (clock steady_board 2) 1997"
  "first_poll steady_board 4012 (clock steady_board 4010) 1999"
  "first_poll steady_board 8019 (clock steady_board 8017) 1999"
  unfolding steady_clock
  by (rule steady_first_poll; simp)+

lemma steady_centred:
  "centred steady_board (rootDir @ ''a.bmp'') = DrawBMP ''/a.bmp'' 0 0"
  "centred steady_board (rootDir @ ''b.bmp'') = DrawBMP ''/b.bmp'' 0 0"
  "centred steady_board (rootDir @ ''c.bmp'') = DrawBMP ''/c.bmp'' 0 0"
  by (simp_all add: centred_def steady_board_def board_def rootDir_def screenWidth_def
      screenLength_def c_div_def)

section \<open>The collision loop ends on the button\<close>

lemma scanSprites_instant:
  "scanSprites e s is xPos yPos collision w = (x', y', c', w') \<Longrightarrow>
     instant w + length is \<le> instant w'"
proof (induction "is" arbitrary: xPos yPos collision w)
  case Nil
  then show ?case by auto
next
  case (Cons i rest)
  show ?case
  proof (cases "onScreen s ! i \<and> collisionX s i xPos \<and> collisionY s i yPos")
    case True
    with Cons.prems(1) obtain rx w1 ry w2 where
      rx: "random e (unat xBorderSprite)
             (serial_call e (Println ''Y Collision detected!'') (advance e w)) = (rx, w1)"
      and ry: "random e (unat yBorderSprite) w1 = (ry, w2)"
      and rec: "scanSprites e s rest (word_of_nat rx) (word_of_nat ry) True w2 = (x', y', c', w')"
      by (auto split: prod.splits)
    have "instant w < instant w2"
      using rx ry
      by (auto simp: random_def serial_call_fields advance_instant split: if_splits)
    with Cons.IH [OF rec] show ?thesis
      by simp
  next
    case False
    with Cons.prems have
      "scanSprites e s rest xPos yPos collision (advance e w) = (x', y', c', w')"
      by simp
    from Cons.IH [OF this] show ?thesis
      by (auto simp: advance_instant)
  qed
qed

lemma instant_random: "random e n w = (r, w') \<Longrightarrow> instant w' = Suc (instant w)"
  by (auto simp: random_def advance_instant split: if_splits)

lemma tft_random: "random e n w = (r, w') \<Longrightarrow> tft w' = tft w"
  by (auto simp: random_def advance_fields split: if_splits)

lemma scanSprites_duration:
  "scanSprites e s is xPos yPos collision w = (x', y', c', w') \<Longrightarrow>
     instant w' \<le> instant w + 4 * length is"
proof (induction "is" arbitrary: xPos yPos collision w)
  case Nil
  then show ?case by auto
next
  case (Cons i rest)
  show ?case
  proof (cases "onScreen s ! i \<and> collisionX s i xPos \<and> collisionY s i yPos")
    case True
    with Cons.prems(1) obtain rx w1 ry w2 where
      rx: "random e (unat xBorderSprite)
             (serial_call e (Println ''Y Collision detected!'') (advance e w)) = (rx, w1)"
      and ry: "random e (unat yBorderSprite) w1 = (ry, w2)"
      and rec: "scanSprites e s rest (word_of_nat rx) (word_of_nat ry) True w2 = (x', y', c', w')"
      by (auto split: prod.splits)
    have "instant w2 = instant w + 4"
      using instant_random [OF rx] instant_random [OF ry]
      by (simp add: serial_call_fields advance_instant)
    with Cons.IH [OF rec] show ?thesis
      by simp
  next
    case False
    with Cons.prems have
      "scanSprites e s rest xPos yPos collision (advance e w) = (x', y', c', w')"
      by simp
    from Cons.IH [OF this] show ?thesis
      by (simp add: advance_instant)
  qed
qed

lemma loopStart_elapses: "elapses e w (loopStart e w)"
proof -
  obtain r w1 where r: "random e (unat maxSprites) w = (r, w1)"
    by (cases "random e (unat maxSprites) w") auto
  obtain rx w2 where rx: "random e (unat xBorderSprite) w1 = (rx, w2)"
    by (cases "random e (unat xBorderSprite) w1") auto
  obtain ry w3 where ry: "random e (unat yBorderSprite) w2 = (ry, w3)"
    by (cases "random e (unat yBorderSprite) w2") auto
  have "loopStart e w = w3"
    using r rx ry by (simp add: loopStart_def)
  with elapses_random [OF r] elapses_random [OF rx] elapses_random [OF ry] show ?thesis
    by (auto intro: elapses_trans)
qed

lemma loopStart_fields:
  "instant (loopStart e w) = instant w + 3" "tft (loopStart e w) = tft w"
proof -
  obtain r w1 where r: "random e (unat maxSprites) w = (r, w1)"
    by (cases "random e (unat maxSprites) w") auto
  obtain rx w2 where rx: "random e (unat xBorderSprite) w1 = (rx, w2)"
    by (cases "random e (unat xBorderSprite) w1") auto
  obtain ry w3 where ry: "random e (unat yBorderSprite) w2 = (ry, w3)"
    by (cases "random e (unat yBorderSprite) w2") auto
  have eq: "loopStart e w = w3"
    using r rx ry by (simp add: loopStart_def)
  show "instant (loopStart e w) = instant w + 3"
    using instant_random [OF r] instant_random [OF rx] instant_random [OF ry] eq by simp
  show "tft (loopStart e w) = tft w"
    using tft_random [OF r] tft_random [OF rx] tft_random [OF ry] eq by simp
qed

lemma firstCandidate_bounds: "in_bounds (fst (firstCandidate e w)) (snd (firstCandidate e w))"
proof -
  obtain r w1 where r: "random e (unat maxSprites) w = (r, w1)"
    by (cases "random e (unat maxSprites) w") auto
  obtain rx w2 where rx: "random e (unat xBorderSprite) w1 = (rx, w2)"
    by (cases "random e (unat xBorderSprite) w1") auto
  obtain ry w3 where ry: "random e (unat yBorderSprite) w2 = (ry, w3)"
    by (cases "random e (unat yBorderSprite) w2") auto
  have "firstCandidate e w = (word_of_nat rx, word_of_nat ry)"
    using r rx ry by (simp add: firstCandidate_def)
  with unat_random_x [OF rx] unat_random_y [OF ry] show ?thesis
    by (simp add: in_bounds_def unat_xBorderSprite unat_yBorderSprite)
qed

text \<open>A tick that selects an invisible slot, in terms of its collision loop.\<close>

lemma spriteTick_loop:
  assumes "\<not> onScreen s ! pickedSlot e w"
  shows "spriteTick n e s w =
     (case retry n e s (fst (firstCandidate e w)) (snd (firstCandidate e w)) (loopStart e w) of
        Busy w' \<Rightarrow> Busy w'
      | Ret None w' \<Rightarrow> Ret (Aborted s) w'
      | Ret (Some (xPos, yPos)) w' \<Rightarrow>
          Ret (Completed (s\<lparr>posXArr := (posXArr s)[pickedSlot e w := xPos],
                             posYArr := (posYArr s)[pickedSlot e w := yPos],
                             onScreen := (onScreen s)[pickedSlot e w := True]\<rparr>))
              (displayImageTFT_at e ''/pattern/heart.bmp'' (uint xPos) (uint yPos) w'))"
proof -
  obtain r w1 where r: "random e (unat maxSprites) w = (r, w1)"
    by (cases "random e (unat maxSprites) w") auto
  obtain rx w2 where rx: "random e (unat xBorderSprite) w1 = (rx, w2)"
    by (cases "random e (unat xBorderSprite) w1") auto
  obtain ry w3 where ry: "random e (unat yBorderSprite) w2 = (ry, w3)"
    by (cases "random e (unat yBorderSprite) w2") auto
  have k: "pickedSlot e w = unat (word_of_nat r :: u16)"
    using r by (simp add: pickedSlot_def)
  from assms r rx ry k show ?thesis
    by (simp add: spriteTick_def loopStart_def firstCandidate_def Let_def
        split: run.splits option.splits prod.splits)
qed

lemma spriteTick_flag_up:
  assumes "\<not> onScreen s ! pickedSlot e w" and "changeButtonState (loopStart e w)"
  shows "spriteTick (Suc n) e s w = Ret (Aborted s) (loopStart e w)"
  using assms by (simp add: spriteTick_loop)

lemma elapses_displayImageTFT_at: "elapses e w (displayImageTFT_at e f x y w)"
  by (auto simp: displayImageTFT_at_def tft_call_def serial_call_def elapses_def advance_flag
      advance_instant Let_def less_Suc_eq)

lemma spriteTick_elapses:
  assumes "spriteTick n e s w = Ret t w'"
  shows "elapses e w w'"
proof (cases "onScreen s ! pickedSlot e w")
  case True
  obtain r w1 where r: "random e (unat maxSprites) w = (r, w1)"
    by (cases "random e (unat maxSprites) w") auto
  with True assms have
    "w' = displayImageTFT_at e ''/pattern/clear-32.bmp''
            (uint (posXArr s ! pickedSlot e w)) (uint (posYArr s ! pickedSlot e w)) w1"
    by (auto simp: spriteTick_def pickedSlot_def Let_def)
  with elapses_random [OF r] elapses_displayImageTFT_at [of e w1] show ?thesis
    by (auto intro: elapses_trans)
next
  case False
  show ?thesis
  proof (cases "retry n e s (fst (firstCandidate e w)) (snd (firstCandidate e w)) (loopStart e w)")
    case (Busy w4)
    with assms False show ?thesis
      by (simp add: spriteTick_loop)
  next
    case (Ret c w4)
    show ?thesis
    proof (cases c)
      case None
      with Ret assms False have "w' = w4"
        by (simp add: spriteTick_loop)
      with retry_abort [OF Ret [unfolded None]] loopStart_elapses [of e w] show ?thesis
        by (auto intro: elapses_trans)
    next
      case (Some p)
      obtain xPos yPos where p: "p = (xPos, yPos)"
        by (cases p) auto
      from Ret Some p assms False have
        w': "w' = displayImageTFT_at e ''/pattern/heart.bmp'' (uint xPos) (uint yPos) w4"
        by (simp add: spriteTick_loop)
      from retry_accept [OF Ret [unfolded Some p] firstCandidate_bounds] have "elapses e (loopStart e w) w4"
        by simp
      with w' loopStart_elapses [of e w] elapses_displayImageTFT_at [of e w4] show ?thesis
        by (auto intro: elapses_trans)
    qed
  qed
qed

text \<open>
  The loop returns in the world in which the pass that the edge falls into ends, and a
  pass takes at most four instants for each slot.
\<close>

lemma retry_returns_soon:
  "isr e k \<Longrightarrow> instant w \<le> k \<Longrightarrow> k + 1 < instant w + n \<Longrightarrow>
     \<exists>r w'. retry n e s xPos yPos w = Ret r w' \<and> instant w' \<le> k + 40"
proof (induction n arbitrary: xPos yPos w)
  case 0
  then show ?case by simp
next
  case (Suc n)
  show ?case
  proof (cases "changeButtonState w")
    case True
    with Suc.prems(2) show ?thesis by simp
  next
    case False
    obtain x1 y1 c1 w1 where
      scan: "scanSprites e s [0..<unat maxSprites] xPos yPos False w = (x1, y1, c1, w1)"
      by (cases "scanSprites e s [0..<unat maxSprites] xPos yPos False w") auto
    from scanSprites_duration [OF scan] have short: "instant w1 \<le> instant w + 40"
      by (simp add: unat_maxSprites)
    show ?thesis
    proof (cases c1)
      case c1: False
      with False scan short Suc.prems(2) show ?thesis by simp
    next
      case c1: True
      from scanSprites_instant [OF scan] have later: "instant w < instant w1"
        by (simp add: unat_maxSprites)
      have step: "retry (Suc n) e s xPos yPos w = retry n e s x1 y1 w1"
        using False scan c1 by simp
      show ?thesis
      proof (cases "k < instant w1")
        case True
        with Suc.prems(1,2) have "\<exists>j \<in> {instant w..<instant w1}. isr e j"
          by (intro bexI [of _ k]) simp_all
        with scanSprites_elapses [OF scan] have up: "changeButtonState w1"
          by (simp add: elapses_def)
        from Suc.prems(2,3) obtain n' where "n = Suc n'"
          by (cases n) auto
        with up step short Suc.prems(2) show ?thesis
          by simp
      next
        case False
        then have "instant w1 \<le> k" by simp
        moreover from later Suc.prems(3) have "k + 1 < instant w1 + n" by simp
        ultimately show ?thesis
          using Suc.IH [OF Suc.prems(1)] step by simp
      qed
    qed
  qed
qed

text \<open>
  The signal is pending in world \<open>w\<close>: the flag is up, or the edge is still to come and
  the budget reaches past it. A pending signal stays pending while time passes.
\<close>

lemma pending_elapses:
  assumes "changeButtonState w \<and> 0 < n \<or> isr e k \<and> instant w \<le> k \<and> k + 1 < instant w + n"
    and "elapses e w w'"
  shows "changeButtonState w' \<and> 0 < n \<or> isr e k \<and> instant w' \<le> k \<and> k + 1 < instant w' + n"
proof (cases "changeButtonState w \<and> 0 < n")
  case True
  with assms(2) show ?thesis
    by (simp add: elapses_def)
next
  case False
  with assms(1) have k: "isr e k" "instant w \<le> k" "k + 1 < instant w + n"
    by auto
  show ?thesis
  proof (cases "k < instant w'")
    case True
    with k(1,2) have "\<exists>j \<in> {instant w..<instant w'}. isr e j"
      by (intro bexI [of _ k]) simp_all
    with assms(2) k(2,3) show ?thesis
      by (auto simp: elapses_def)
  next
    case False
    with assms(2) k show ?thesis
      by (auto simp: elapses_def)
  qed
qed

lemma retry_pending:
  assumes "changeButtonState w \<and> 0 < n \<or> isr e k \<and> instant w \<le> k \<and> k + 1 < instant w + n"
  shows "\<exists>r w'. retry n e s xPos yPos w = Ret r w' \<and> instant w' \<le> max k (instant w) + 40"
proof (cases "changeButtonState w \<and> 0 < n")
  case True
  then obtain n' where "n = Suc n'"
    by (cases n) auto
  with True show ?thesis
    by simp
next
  case False
  with assms have k: "isr e k" "instant w \<le> k" "k + 1 < instant w + n"
    by auto
  from retry_returns_soon [OF k, of s xPos yPos] k(2) show ?thesis
    by (simp add: max_def)
qed

lemma spriteTick_pending:
  assumes "changeButtonState w \<and> 0 < n \<or> isr e k \<and> instant w \<le> k \<and> k + 1 < instant w + n"
  shows "\<exists>t w'. spriteTick n e s w = Ret t w' \<and> instant w' \<le> max k (instant w) + 45"
proof (cases "onScreen s ! pickedSlot e w")
  case True
  obtain r w1 where r: "random e (unat maxSprites) w = (r, w1)"
    by (cases "random e (unat maxSprites) w") auto
  with True instant_random [OF r] show ?thesis
    by (simp add: spriteTick_def pickedSlot_def Let_def instant_displayImageTFT_at)
next
  case False
  from pending_elapses [OF assms loopStart_elapses]
  have "\<exists>r w'. retry n e s (fst (firstCandidate e w)) (snd (firstCandidate e w)) (loopStart e w)
          = Ret r w' \<and> instant w' \<le> max k (instant (loopStart e w)) + 40"
    by (rule retry_pending)
  then obtain r w4 where
    run: "retry n e s (fst (firstCandidate e w)) (snd (firstCandidate e w)) (loopStart e w) = Ret r w4"
    and b: "instant w4 \<le> max k (instant w + 3) + 40"
    by (auto simp: loopStart_fields)
  have "max k (instant w + 3) \<le> max k (instant w) + 3"
    by simp
  with b have soon: "instant w4 + 2 \<le> max k (instant w) + 45"
    by linarith
  show ?thesis
  proof (cases r)
    case None
    with run soon False show ?thesis
      by (simp add: spriteTick_loop)
  next
    case (Some p)
    then obtain xPos yPos where "r = Some (xPos, yPos)"
      by (cases p) auto
    with run soon False show ?thesis
      by (simp add: spriteTick_loop instant_displayImageTFT_at)
  qed
qed

lemma elapses_yield: "elapses e w (yield e w)"
  by (simp add: yield_def elapses_advance)

lemma elapses_millis: "elapses e w (snd (millis e w))"
  by (simp add: millis_def elapses_advance)

lemma patternLoop_pending:
  "changeButtonState w \<and> 0 < n \<or> isr e k \<and> instant w \<le> k \<and> k + 1 < instant w + n \<Longrightarrow>
     \<exists>w'. patternLoop n e s time1 w = Ret () w'"
proof (induction n arbitrary: s time1 w)
  case 0
  then show ?case by auto
next
  case (Suc n)
  show ?case
  proof (cases "changeButtonState (yield e w)")
    case True
    then show ?thesis by simp
  next
    case False
    then have down: "\<not> changeButtonState w" "\<not> isr e (instant w)"
      by (simp_all add: yield_def advance_flag)
    with Suc.prems have k: "isr e k" "instant w \<le> k" "k + 1 < instant w + Suc n"
      by auto
    from k(1,2) down(2) have "instant w < k"
      by (cases "k = instant w") auto
    with k have "isr e k \<and> instant (yield e w) \<le> k \<and> k + 1 < instant (yield e w) + n"
      by (simp add: yield_def advance_instant)
    then have p1: "changeButtonState (yield e w) \<and> 0 < n
        \<or> isr e k \<and> instant (yield e w) \<le> k \<and> k + 1 < instant (yield e w) + n"
      by simp
    obtain now w2 where m: "millis e (yield e w) = (now, w2)"
      by (cases "millis e (yield e w)") auto
    from pending_elapses [OF p1 elapses_millis] m have
      p2: "changeButtonState w2 \<and> 0 < n \<or> isr e k \<and> instant w2 \<le> k \<and> k + 1 < instant w2 + n"
      by simp
    show ?thesis
    proof (cases "now - time1 \<ge> word_of_int refreshTime")
      case wait: False
      with False m Suc.IH [OF p2, of s time1] show ?thesis
        by simp
    next
      case True
      from spriteTick_pending [OF p2, of s] obtain t w3 where
        t: "spriteTick n e s w2 = Ret t w3"
        by blast
      show ?thesis
      proof (cases t)
        case (Aborted s')
        with t True False m show ?thesis
          by simp
      next
        case (Completed s')
        obtain t1 w4 where m4: "millis e w3 = (t1, w4)"
          by (cases "millis e w3") auto
        from pending_elapses [OF p2 spriteTick_elapses [OF t]] have
          "changeButtonState w3 \<and> 0 < n \<or> isr e k \<and> instant w3 \<le> k \<and> k + 1 < instant w3 + n" .
        from pending_elapses [OF this elapses_millis] m4 have
          "changeButtonState w4 \<and> 0 < n \<or> isr e k \<and> instant w4 \<le> k \<and> k + 1 < instant w4 + n"
          by simp
        from Suc.IH [OF this, of s' t1] Completed t True False m m4 show ?thesis
          by simp
      qed
    qed
  qed
qed

lemma patternMode_pending:
  assumes "isr e k" "instant w \<le> k" "k + 1 < instant w + n"
  shows "\<exists>w'. patternMode n e w = Ret () w'"
proof -
  obtain w1 where w1: "w1 = displayImageTFT_at e ''/pattern/bottom-message.bmp'' (- 5) 220
      (tft_call e (FillScreen BLACK) w)"
    by simp
  obtain t w2 where m: "millis e w1 = (t, w2)"
    by (cases "millis e w1") auto
  have "elapses e w (tft_call e (FillScreen BLACK) w)"
    by (auto simp: tft_call_def elapses_def advance_flag advance_instant)
  with elapses_displayImageTFT_at [of e "tft_call e (FillScreen BLACK) w"] w1
  have "elapses e w w1"
    by (auto intro: elapses_trans)
  with elapses_millis [of e w1] m have el: "elapses e w w2"
    by (auto intro: elapses_trans)
  from assms have "changeButtonState w \<and> 0 < n \<or> isr e k \<and> instant w \<le> k \<and> k + 1 < instant w + n"
    by simp
  from patternLoop_pending [OF pending_elapses [OF this el], of init_sprites t] w1 m
  show ?thesis
    by (simp add: patternMode_def Let_def)
qed

text \<open>A tick that returns through the collision loop ends \<^verbatim>\<open>patternMode\<close>.\<close>

lemma patternLoop_aborted:
  assumes "\<not> changeButtonState (yield e w)"
    and "fst (millis e (yield e w)) - time1 \<ge> word_of_int refreshTime"
    and "spriteTick n e s (snd (millis e (yield e w))) = Ret (Aborted s') w'"
  shows "patternLoop (Suc n) e s time1 w = Ret () w'"
  using assms by (simp add: split_def Let_def)

lemma patternMode_message:
  "\<exists>w'. patternMode 0 e w = Busy w'
     \<and> tft w' = tft w @ [(instant w, FillScreen BLACK),
                          (instant w + 1, DrawBMP ''/pattern/bottom-message.bmp'' (- 5) 220)]"
  by (simp add: patternMode_def displayImageTFT_at_def millis_def call_fields Let_def)

section \<open>What holds of every reachable content of the arrays\<close>

lemma reachable_invariants:
  "reachable e s \<Longrightarrow> sized s \<and> no_overlap s \<and> clear_of_message s"
proof (induction rule: reachable.induct)
  case start
  show ?case
    by (simp add: sized_init no_overlap_init clear_of_message_init)
next
  case (tick s n w s' w')
  from tick.IH tick.hyps(2)
    spriteTick_sized [of s n e w "Completed s'" w']
    spriteTick_no_overlap [of s n e w "Completed s'" w']
    spriteTick_clear_of_message [of s n e w "Completed s'" w']
  show ?case
    by simp
qed

lemma replicate_10: "replicate 10 x = [x, x, x, x, x, x, x, x, x, x]"
  by (simp add: numeral_eq_Suc)

lemma demo_first:
  "spriteTick (Suc 0) calm_board init_sprites power_on = Ret (Completed first_sprite) after_first"
  by (simp add: spriteTick_def upt_10 prim_defs const_defs demo_defs init_sprites_def
      first_sprite_def after_first_def replicate_10)

lemma reachable_first_sprite: "reachable calm_board first_sprite"
  by (rule reachable.tick [OF reachable.start demo_first])

section \<open>The signal during the accepting pass\<close>

text \<open>
  The same tick on \<open>touched_board\<close>: the edge arrives during the pass that accepts the
  candidate, after the last test of the flag, and the tick places the sprite.
\<close>

lemma demo_touch:
  "spriteTick (Suc (Suc 0)) touched_board one_sprite power_on =
     Ret (Completed two_sprites) after_touch"
  by (simp add: spriteTick_def upt_10 prim_defs const_defs demo_defs collisionX_def
      collisionY_def)

lemma demo_touch_scan:
  "scanSprites touched_board one_sprite [0..<unat maxSprites] 100 100 False second_test =
     (100, 100, False, accepted)"
  by (simp add: upt_10 prim_defs const_defs demo_defs collisionX_def collisionY_def)

lemma demo_touch_retry:
  "retry (Suc (Suc 0)) touched_board one_sprite 20 20 before_retry =
     Ret (Some (100, 100)) accepted"
  by (simp add: upt_10 prim_defs const_defs demo_defs collisionX_def collisionY_def)

text \<open>On \<open>hasty_board\<close> the tick that is due finds the flag up before its first pass.\<close>

lemma demo_due:
  "yield hasty_board due = power_on\<lparr>instant := 501\<rparr>"
  "millis hasty_board (power_on\<lparr>instant := 501\<rparr>) = (501, power_on\<lparr>instant := 502\<rparr>)"
  "pickedSlot hasty_board (power_on\<lparr>instant := 502\<rparr>) = 3"
  "loopStart hasty_board (power_on\<lparr>instant := 502\<rparr>) = stopped"
  by (simp_all add: yield_def millis_def pickedSlot_def loopStart_def prim_defs const_defs
      demo_defs)

lemma demo_stopped:
  "spriteTick (Suc 0) hasty_board one_sprite (power_on\<lparr>instant := 502\<rparr>) =
     Ret (Aborted one_sprite) stopped"
  by (simp add: spriteTick_def prim_defs const_defs demo_defs)

section \<open>The slideshow, image by image\<close>

text \<open>
  With the entries A, B, C and the button never pressed: A is drawn in the sixth instant
  after the call, B four instants after the first poll that finds the refresh time
  elapsed since the time stamp taken at the start, C four instants after the first poll
  that finds it elapsed since the time stamp taken once B was shown, and the function
  returns with the first poll that finds it elapsed since the time stamp taken once C
  was shown.
\<close>

lemma slideshow_run:
  assumes files: "files e = [A, B, C]"
    and down: "\<not> changeButtonState w" and quiet: "\<forall>k. \<not> isr e k"
    and fits: "length A < unat nameLengthMax" "length B < unat nameLengthMax"
      "length C < unat nameLengthMax"
    and B: "first_poll e (instant w + 9) (clock e (instant w + 2)) jB"
    and pB: "pB = instant w + 9 + 2 * jB"
    and C: "first_poll e (pB + 9) (clock e (pB + 7)) jC"
    and pC: "pC = pB + 9 + 2 * jC"
    and R: "first_poll e (pC + 9) (clock e (pC + 7)) jR"
    and budget: "jB + jC + 3 \<le> n" "jR + 1 \<le> n"
  shows "\<exists>w'. displayAllImagesDir n e w = Ret () w'
          \<and> tft w' = tft w @ [(instant w + 6, centred e (rootDir @ A)),
                               (pB + 4, centred e (rootDir @ B)),
                               (pC + 4, centred e (rootDir @ C))]
          \<and> instant w' = pC + 9 + 2 * jR + 1
          \<and> \<not> changeButtonState w'"
proof -
  define wA where
    "wA = (displayImageTFT e (rootDir @ A) (w\<lparr>instant := Suc (Suc (Suc (Suc (instant w))))\<rparr>))
            \<lparr>instant := instant w + 9\<rparr>"
  define wB where
    "wB = (displayImageTFT e (rootDir @ B) (wA\<lparr>instant := instant wA + 2 * jB + 2\<rparr>))
            \<lparr>instant := instant wA + 2 * jB + 9\<rparr>"
  define wC where
    "wC = (displayImageTFT e (rootDir @ C) (wB\<lparr>instant := instant wB + 2 * jC + 2\<rparr>))
            \<lparr>instant := instant wB + 2 * jC + 9\<rparr>"
  define w' where "w' = wC\<lparr>instant := instant wC + 2 * jR + 1\<rparr>"
  define m where "m = n - (jB + jC + 3)"
  define m' where "m' = n - (jR + 1)"
  have n: "n = jB + Suc (jC + Suc (Suc m))"
    using budget(1) by (simp add: m_def)
  have n': "n = jR + Suc m'"
    using budget(2) by (simp add: m'_def)
  note dq = displayImageTFT_quiet [OF quiet]
  have iA: "instant wA = instant w + 9"
    by (simp add: wA_def)
  have fA: "\<not> changeButtonState wA" "tft wA = tft w @ [(instant w + 6, centred e (rootDir @ A))]"
    using down by (simp_all add: wA_def dq)
  have iB: "instant wB = pB + 9"
    by (simp add: wB_def iA pB)
  have fB: "\<not> changeButtonState wB" "tft wB = tft wA @ [(pB + 4, centred e (rootDir @ B))]"
    using fA(1) by (simp_all add: wB_def dq iA pB)
  have iC: "instant wC = pC + 9"
    by (simp add: wC_def iB pC)
  have fC: "\<not> changeButtonState wC" "tft wC = tft wB @ [(pC + 4, centred e (rootDir @ C))]"
    using fB(1) by (simp_all add: wC_def dq iB pC)
  have tA: "clock e (Suc (Suc (instant w))) = clock e (instant w + 2)"
    by simp
  have pollB: "first_poll e (instant wA) (clock e (Suc (Suc (instant w)))) jB"
    using B by (simp only: iA tA)
  have tB: "clock e (instant wA + 2 * jB + 7) = clock e (pB + 7)"
    by (simp add: iA pB)
  have pollC: "first_poll e (instant wB) (clock e (instant wA + 2 * jB + 7)) jC"
    using C by (simp only: iB tB)
  have tC: "clock e (instant wB + 2 * jC + 7) = clock e (pC + 7)"
    by (simp add: iB pC)
  have pollR: "first_poll e (instant wC) (clock e (instant wB + 2 * jC + 7)) jR"
    using R by (simp only: iC tC)
  have "showEntries n e (Some B) [C] (clock e (Suc (Suc (instant w)))) wA =
          showEntries (jC + Suc (Suc m)) e (Some C) [] (clock e (instant wA + 2 * jB + 7)) wB"
    unfolding n wB_def
    using showEntries_next [OF quiet fA(1) pollB fits(2), of "jC + Suc (Suc m)" "[C]"]
    by simp
  also have "\<dots> = showEntries (Suc m) e None [] (clock e (instant wB + 2 * jC + 7)) wC"
    unfolding wC_def
    using showEntries_next [OF quiet fB(1) pollC fits(3), of "Suc m" "[]"]
    by simp
  also have "\<dots> = Ret (Some (clock e (instant wB + 2 * jC + 7))) wC"
    by simp
  finally have shown:
    "showEntries n e (Some B) [C] (clock e (Suc (Suc (instant w)))) wA =
       Ret (Some (clock e (instant wB + 2 * jC + 7))) wC" .
  have last: "lastDelay n e (clock e (instant wB + 2 * jC + 7)) wC = Ret () w'"
    unfolding n' w'_def
    by (rule lastDelay_run [OF quiet pollR])
  have "displayAllImagesDir n e w = Ret () w'"
    using displayAllImagesDir_first [OF files quiet fits(1), of n w] shown last
    by (simp add: wA_def)
  moreover have "tft w' = tft w @ [(instant w + 6, centred e (rootDir @ A)),
                                   (pB + 4, centred e (rootDir @ B)),
                                   (pC + 4, centred e (rootDir @ C))]"
    by (simp add: w'_def fA fB fC)
  moreover have "instant w' = pC + 9 + 2 * jR + 1"
    by (simp add: w'_def iC)
  moreover have "\<not> changeButtonState w'"
    using fC(1) by (simp add: w'_def)
  ultimately show ?thesis
    by blast
qed

section \<open>The slideshow in milliseconds\<close>

text \<open>
  The clock of the board reads the time \<open>c k\<close> in milliseconds at instant \<open>k\<close>, cut to
  32 bits; time does not run backwards and no instant lasts longer than \<open>d\<close>
  milliseconds.
\<close>

lemma time_mono:
  assumes "\<forall>k. c k \<le> c (Suc k)"
  shows "(c :: nat \<Rightarrow> nat) k \<le> c (k + m)"
proof (induction m)
  case 0
  show ?case by simp
next
  case (Suc m)
  from assms have "c (k + m) \<le> c (Suc (k + m))"
    by blast
  with Suc show ?case
    by simp
qed

lemma time_step:
  assumes "\<forall>k. c (Suc k) \<le> c k + d"
  shows "(c :: nat \<Rightarrow> nat) (k + m) \<le> c k + m * d"
proof (induction m)
  case 0
  show ?case by simp
next
  case (Suc m)
  from assms have "c (Suc (k + m)) \<le> c (k + m) + d"
    by blast
  with Suc show ?case
    by simp
qed

lemma elapsed_nat:
  assumes "t \<le> x" and "x - t < 2 ^ 32"
  shows "(word_of_nat x - word_of_nat t :: u32) < word_of_int slideshowRefreshTime
           \<longleftrightarrow> x - t < 4000"
proof -
  define y where "y = x - t"
  have "(word_of_nat x - word_of_nat t :: u32) = word_of_nat y"
    unfolding y_def using assms(1) by (simp only: of_nat_diff)
  moreover have "(word_of_nat y :: u32) < 4000 \<longleftrightarrow> y < 4000"
    using assms(2) by (intro u32_of_nat_less) (simp add: y_def)
  ultimately show ?thesis
    by (simp add: slideshowRefreshTime_def y_def)
qed

text \<open>
  A wait that starts in instant \<open>p\<close> with the time stamp of instant \<open>q\<close>, at most seven
  instants earlier, has a first poll that finds the refresh time elapsed: it reads the
  clock no earlier than 4000 ms after the time stamp, and later than that by no more than
  what lies between the time stamp and the first poll, or between two polls.
\<close>

lemma first_poll_exists:
  assumes clock: "\<forall>k. clock e k = word_of_nat (c k)"
    and mono: "\<forall>k. c k \<le> c (Suc k)" and step: "\<forall>k. c (Suc k) \<le> c k + d"
    and goes: "\<forall>t. \<exists>k. t \<le> c k"
    and q: "p = q + m" "2 \<le> m" "m \<le> 7"
    and small: "4000 + 7 * d < 2 ^ 32"
  shows "\<exists>j. first_poll e p (clock e q) j
           \<and> c q + 4000 \<le> c (p + 2 * j) \<and> c (p + 2 * j) \<le> c q + 4000 + m * d"
proof -
  define j where "j = (LEAST j. c q + 4000 \<le> c (p + 2 * j))"
  from goes obtain k where "c q + 4000 \<le> c k"
    by blast
  moreover have "c k \<le> c (k + (p + k))"
    by (rule time_mono [OF mono])
  moreover have "k + (p + k) = p + 2 * k"
    by simp
  ultimately have "c q + 4000 \<le> c (p + 2 * k)"
    by (simp only: order_trans)
  then have hit: "c q + 4000 \<le> c (p + 2 * j)"
    unfolding j_def by (rule LeastI)
  have early: "c (p + 2 * i) < c q + 4000" if "i < j" for i
    using not_less_Least [of i "\<lambda>j. c q + 4000 \<le> c (p + 2 * j)"] that
    by (simp add: j_def not_le)
  have after: "c q \<le> c (p + 2 * i)" for i
    using time_mono [OF mono, of q "m + 2 * i"] by (simp add: q(1) add.assoc)
  have md: "m * d \<le> 7 * d" "2 * d \<le> m * d"
    using q(2,3) by simp_all
  have upper: "c (p + 2 * j) \<le> c q + 4000 + m * d"
  proof (cases j)
    case 0
    with time_step [OF step, of q m] show ?thesis
      by (simp add: q(1))
  next
    case (Suc i)
    then have "c (p + 2 * i) < c q + 4000"
      by (intro early) simp
    moreover have "c (p + 2 * i + 2) \<le> c (p + 2 * i) + 2 * d"
      by (rule time_step [OF step])
    moreover have "p + 2 * j = p + 2 * i + 2"
      using Suc by simp
    ultimately have "c (p + 2 * j) < c q + 4000 + 2 * d"
      by (simp only:)
    with md(2) show ?thesis
      by linarith
  qed
  have "first_poll e p (clock e q) j"
    unfolding first_poll_def
  proof (intro conjI allI impI)
    fix i
    assume "i < j"
    from early [OF this] after [of i]
    have d: "c q \<le> c (p + 2 * i)" "c (p + 2 * i) - c q < 4000"
      by simp_all
    then have "c (p + 2 * i) - c q < 2 ^ 32"
      by simp
    from elapsed_nat [OF d(1) this] d(2)
    show "clock e (p + 2 * i) - clock e q < word_of_int slideshowRefreshTime"
      by (simp add: clock)
  next
    have "c (p + 2 * j) \<le> c q + (4000 + 7 * d)"
      using upper md(1) by linarith
    with small have "c (p + 2 * j) - c q < 2 ^ 32"
      by simp
    with hit after [of j]
    have d: "c q \<le> c (p + 2 * j)" "\<not> c (p + 2 * j) - c q < 4000"
      "c (p + 2 * j) - c q < 2 ^ 32"
      by simp_all
    from elapsed_nat [OF d(1,3)] d(2)
    show "word_of_int slideshowRefreshTime \<le> clock e (p + 2 * j) - clock e q"
      by (simp add: clock not_less)
  qed
  with hit upper show ?thesis
    by blast
qed

section \<open>The properties of the specification\<close>

text \<open>
  C1. The slots start without overlap, and every tick of the animator, whether it erases
  a visible slot, places an invisible one or aborts, leaves every two distinct visible
  slots more than \<open>spriteSize + 1\<close> pixels apart in x or in y. Hence the same holds
  after every completed tick of \<^verbatim>\<open>patternMode\<close>.
\<close>

theorem no_overlap_invariant:
  "sized init_sprites \<and> no_overlap init_sprites
   \<and> (sized s \<and> no_overlap s \<and> spriteTick n e s w = Ret t w'
        \<longrightarrow> sized (slots t) \<and> no_overlap (slots t))
   \<and> (reachable e s \<longrightarrow> no_overlap s)"
  using sized_init no_overlap_init spriteTick_sized spriteTick_no_overlap reachable_invariants
  by blast

theorem no_overlap_invariant_witness:
  "sized one_sprite \<and> no_overlap one_sprite
   \<and> spriteTick (Suc (Suc 0)) calm_board one_sprite power_on =
       Ret (Completed two_sprites) after_place
   \<and> sized two_sprites \<and> no_overlap two_sprites
   \<and> reachable calm_board first_sprite \<and> no_overlap first_sprite"
  using no_overlap_invariant [of one_sprite "Suc (Suc 0)" calm_board power_on
      "Completed two_sprites" after_place]
    no_overlap_invariant [of first_sprite _ calm_board]
    sized_one_sprite no_overlap_one_sprite demo_place reachable_first_sprite
  by simp

text \<open>
  C2. In a tick that activates an invisible slot the flag is tested before the first
  pass over the slots and again before every further pass:

  \<^item> a test that finds the flag up returns at once, so an edge of the button that arrives
    before the collision loop starts, or during a pass that ends with a collision, ends
    the tick at the next test;
  \<^item> a tick that returns this way has changed no slot and drawn nothing, and the loop of
    \<^verbatim>\<open>patternMode\<close> returns with it;
  \<^item> a tick that places a sprite has seen no edge from its start to the last test of its
    collision loop, which lies twelve instants before its end (the ten slots of the
    accepting pass, the draw and its status line): an edge that arrives later than that
    test does not stop this tick;
  \<^item> once the edge has arrived nothing goes on for long: with a budget that reaches past
    the instant \<open>k\<close> of the edge the collision loop returns at the end of the pass the
    edge falls into, at most 40 instants later (four for each slot), the tick returns at
    most 45 instants later, and \<^verbatim>\<open>patternMode\<close> and its loop return.
\<close>

theorem abort_atomicity:
  "(changeButtonState w \<longrightarrow> retry (Suc n) e s xPos yPos w = Ret None w)
   \<and> (\<not> changeButtonState w
        \<and> scanSprites e s [0..<unat maxSprites] xPos yPos False w = (x1, y1, True, w1)
        \<and> (\<exists>k \<in> {instant w..<instant w1}. isr e k)
        \<longrightarrow> retry (Suc (Suc n)) e s xPos yPos w = Ret None w1)
   \<and> (\<not> onScreen s ! pickedSlot e w \<and> changeButtonState (loopStart e w)
        \<longrightarrow> spriteTick (Suc n) e s w = Ret (Aborted s) (loopStart e w))
   \<and> (spriteTick n e s w = Ret (Aborted s') w'
        \<longrightarrow> s' = s \<and> tft w' = tft w \<and> changeButtonState w')
   \<and> (\<not> changeButtonState (yield e w)
        \<and> fst (millis e (yield e w)) - time1 \<ge> word_of_int refreshTime
        \<and> spriteTick n e s (snd (millis e (yield e w))) = Ret (Aborted s') w'
        \<longrightarrow> patternLoop (Suc n) e s time1 w = Ret () w')
   \<and> (\<not> onScreen s ! pickedSlot e w \<and> spriteTick n e s w = Ret (Completed s') w'
        \<longrightarrow> \<not> changeButtonState w \<and> (\<forall>k \<in> {instant w..<instant w' - 12}. \<not> isr e k))
   \<and> (isr e k \<and> instant w \<le> k \<and> k + 1 < instant w + n
        \<longrightarrow> (\<exists>r w'. retry n e s xPos yPos w = Ret r w' \<and> instant w' \<le> k + 40)
          \<and> (\<exists>t w'. spriteTick n e s w = Ret t w' \<and> instant w' \<le> k + 45)
          \<and> (\<exists>w'. patternLoop n e s time1 w = Ret () w')
          \<and> (\<exists>w'. patternMode n e w = Ret () w'))"
proof (intro conjI impI)
  assume "changeButtonState w"
  then show "retry (Suc n) e s xPos yPos w = Ret None w"
    by (rule retry_flag_up)
next
  assume "\<not> changeButtonState w
    \<and> scanSprites e s [0..<unat maxSprites] xPos yPos False w = (x1, y1, True, w1)
    \<and> (\<exists>k \<in> {instant w..<instant w1}. isr e k)"
  then show "retry (Suc (Suc n)) e s xPos yPos w = Ret None w1"
    using retry_flag_raised [of w e s xPos yPos x1 y1 True w1 n] by blast
next
  assume "\<not> onScreen s ! pickedSlot e w \<and> changeButtonState (loopStart e w)"
  then show "spriteTick (Suc n) e s w = Ret (Aborted s) (loopStart e w)"
    using spriteTick_flag_up by blast
next
  assume a: "spriteTick n e s w = Ret (Aborted s') w'"
  from spriteTick_aborted [OF a]
  show "s' = s" "tft w' = tft w" "changeButtonState w'"
    by simp_all
next
  assume "\<not> changeButtonState (yield e w)
    \<and> fst (millis e (yield e w)) - time1 \<ge> word_of_int refreshTime
    \<and> spriteTick n e s (snd (millis e (yield e w))) = Ret (Aborted s') w'"
  then show "patternLoop (Suc n) e s time1 w = Ret () w'"
    using patternLoop_aborted by blast
next
  assume a: "\<not> onScreen s ! pickedSlot e w \<and> spriteTick n e s w = Ret (Completed s') w'"
  then have "\<not> changeButtonState w \<and> (\<forall>k \<in> {instant w..<instant w' - 12}. \<not> isr e k)"
    using spriteTick_quiet by blast
  then show "\<not> changeButtonState w" "\<forall>k \<in> {instant w..<instant w' - 12}. \<not> isr e k"
    by simp_all
next
  assume a: "isr e k \<and> instant w \<le> k \<and> k + 1 < instant w + n"
  then have k: "isr e k" "instant w \<le> k" "k + 1 < instant w + n"
    by simp_all
  from k show "\<exists>r w'. retry n e s xPos yPos w = Ret r w' \<and> instant w' \<le> k + 40"
    by (rule retry_returns_soon)
  from a have p: "changeButtonState w \<and> 0 < n \<or> isr e k \<and> instant w \<le> k \<and> k + 1 < instant w + n"
    by simp
  from spriteTick_pending [OF p, of s] k(2)
  show "\<exists>t w'. spriteTick n e s w = Ret t w' \<and> instant w' \<le> k + 45"
    by (simp add: max_def)
  from p show "\<exists>w'. patternLoop n e s time1 w = Ret () w'"
    by (rule patternLoop_pending)
  from k show "\<exists>w'. patternMode n e w = Ret () w'"
    by (rule patternMode_pending)
qed

theorem abort_atomicity_witness:
  "changeButtonState after_abort
   \<and> retry (Suc 0) pressed_board one_sprite 100 100 after_abort = Ret None after_abort
   \<and> \<not> changeButtonState before_retry
   \<and> scanSprites pressed_board one_sprite [0..<unat maxSprites] 20 20 False before_retry =
       (100, 100, True, after_abort)
   \<and> isr pressed_board 4 \<and> instant before_retry \<le> 4 \<and> 4 < instant after_abort
   \<and> retry (Suc (Suc 0)) pressed_board one_sprite 20 20 before_retry = Ret None after_abort
   \<and> spriteTick (Suc (Suc 0)) pressed_board one_sprite power_on =
       Ret (Aborted one_sprite) after_abort
   \<and> tft after_abort = tft power_on
   \<and> \<not> onScreen one_sprite ! pickedSlot hasty_board (power_on\<lparr>instant := 502\<rparr>)
   \<and> changeButtonState (loopStart hasty_board (power_on\<lparr>instant := 502\<rparr>))
   \<and> spriteTick (Suc 0) hasty_board one_sprite (power_on\<lparr>instant := 502\<rparr>) =
       Ret (Aborted one_sprite) stopped
   \<and> \<not> changeButtonState (yield hasty_board due)
   \<and> fst (millis hasty_board (yield hasty_board due)) - 0 \<ge> word_of_int refreshTime
   \<and> patternLoop (Suc (Suc 0)) hasty_board one_sprite 0 due = Ret () stopped
   \<and> \<not> onScreen one_sprite ! pickedSlot calm_board power_on
   \<and> spriteTick (Suc (Suc 0)) calm_board one_sprite power_on =
       Ret (Completed two_sprites) after_place
   \<and> \<not> changeButtonState power_on \<and> instant after_place - 12 = 16 \<and> \<not> isr calm_board 15
   \<and> 4 + 1 < instant before_retry + 3
   \<and> (\<exists>r w'. retry 3 pressed_board one_sprite 20 20 before_retry = Ret r w'
         \<and> instant w' \<le> 4 + 40)
   \<and> (\<exists>t w'. spriteTick 3 pressed_board one_sprite before_retry = Ret t w'
         \<and> instant w' \<le> 4 + 45)
   \<and> (\<exists>w'. patternLoop 3 pressed_board one_sprite 0 before_retry = Ret () w')
   \<and> (\<exists>w'. patternMode 3 pressed_board before_retry = Ret () w')"
proof -
  have up: "changeButtonState after_abort"
    by (simp add: after_abort_def power_on_def)
  have down: "\<not> changeButtonState before_retry"
    by (simp add: before_retry_def power_on_def)
  have edge: "isr pressed_board 4" "instant before_retry \<le> 4" "4 < instant after_abort"
    by (simp_all add: demo_defs)
  then have ex: "\<exists>k \<in> {instant before_retry..<instant after_abort}. isr pressed_board k"
    by (intro bexI [of _ 4]) simp_all
  have free: "\<not> onScreen one_sprite ! pickedSlot calm_board power_on"
    by (simp add: demo_picks one_sprite_def)
  have hasty: "\<not> onScreen one_sprite ! pickedSlot hasty_board (power_on\<lparr>instant := 502\<rparr>)"
    "changeButtonState (loopStart hasty_board (power_on\<lparr>instant := 502\<rparr>))"
    "\<not> changeButtonState (yield hasty_board due)"
    "fst (millis hasty_board (yield hasty_board due)) - 0 \<ge> word_of_int refreshTime"
    "snd (millis hasty_board (yield hasty_board due)) = power_on\<lparr>instant := 502\<rparr>"
    using demo_due by (simp_all add: one_sprite_def stopped_def refreshTime_def) (simp add: power_on_def)
  have budget: "4 + 1 < instant before_retry + 3"
    by (simp add: demo_defs)
  have quiet: "instant after_place - 12 = 16" "15 \<in> {instant power_on..<instant after_place - 12}"
    by (simp_all add: demo_defs)
  from abort_atomicity [of before_retry 3 pressed_board one_sprite 20 20 _ _ _ _ _ 0 4] budget
    abort_atomicity [of after_abort 0 pressed_board one_sprite 100 100]
    abort_atomicity [of before_retry 0 pressed_board one_sprite 20 20 100 100 after_abort]
    abort_atomicity [of power_on "Suc (Suc 0)" pressed_board one_sprite _ _ _ _ _ one_sprite
      after_abort]
    abort_atomicity [of "power_on\<lparr>instant := 502\<rparr>" 0 hasty_board one_sprite]
    abort_atomicity [of due "Suc 0" hasty_board one_sprite _ _ _ _ _ one_sprite stopped 0]
    abort_atomicity [of power_on "Suc (Suc 0)" calm_board one_sprite _ _ _ _ _ two_sprites
      after_place]
    up down edge ex free hasty quiet demo_scan demo_abort demo_place demo_stopped
  show ?thesis
    by simp
qed

text \<open>
  An edge that arrives at a retry iteration need not stop the tick. On \<open>touched_board\<close>
  the collision loop starts in instant 3 and ends in instant 26; it finds the flag down
  at its second test, in instant 16; the edge arrives in instant 20, while the slots are
  visited with the candidate (100, 100); no slot collides with it, and the tick stores
  the candidate in slot 3 and draws the sprite, with the flag up.
\<close>

theorem signal_in_accepting_pass:
  "\<not> onScreen one_sprite ! pickedSlot touched_board power_on
   \<and> loopStart touched_board power_on = before_retry
   \<and> firstCandidate touched_board power_on = (20, 20)
   \<and> retry (Suc (Suc 0)) touched_board one_sprite 20 20 before_retry =
       Ret (Some (100, 100)) accepted
   \<and> instant before_retry = 3 \<and> isr touched_board 20 \<and> instant accepted = 26
   \<and> \<not> changeButtonState second_test
   \<and> scanSprites touched_board one_sprite [0..<unat maxSprites] 100 100 False second_test =
       (100, 100, False, accepted)
   \<and> changeButtonState accepted
   \<and> spriteTick (Suc (Suc 0)) touched_board one_sprite power_on =
       Ret (Completed two_sprites) after_touch
   \<and> two_sprites \<noteq> one_sprite
   \<and> tft after_touch = tft power_on @ [(26, DrawBMP ''/pattern/heart.bmp'' 100 100)]"
proof -
  have "\<not> onScreen one_sprite ! pickedSlot touched_board power_on"
    "loopStart touched_board power_on = before_retry"
    "firstCandidate touched_board power_on = (20, 20)"
    by (simp_all add: pickedSlot_def loopStart_def firstCandidate_def prim_defs const_defs
        demo_defs)
  moreover have "instant before_retry = 3" "isr touched_board 20" "instant accepted = 26"
    "\<not> changeButtonState second_test" "changeButtonState accepted"
    "two_sprites \<noteq> one_sprite"
    "tft after_touch = tft power_on @ [(26, DrawBMP ''/pattern/heart.bmp'' 100 100)]"
    by (simp_all add: demo_defs)
  ultimately show ?thesis
    using demo_touch demo_touch_scan demo_touch_retry by simp
qed

text \<open>
  C5. A tick that places a sprite stores coordinates with
  \<open>0 \<le> x < screenWidth - spriteSize = 208\<close> and
  \<open>0 \<le> y < screenLength - spriteSize - 100 = 188\<close>, whether the candidate accepted is
  the first one drawn or one drawn again after a collision, and draws the sprite there.
\<close>

theorem placement_boundary:
  assumes "sized s" and "\<not> onScreen s ! pickedSlot e w"
    and "spriteTick n e s w = Ret (Completed s') w'"
  shows "0 \<le> uint (posXArr s' ! pickedSlot e w)
       \<and> uint (posXArr s' ! pickedSlot e w) < uint screenWidth - uint spriteSize
       \<and> 0 \<le> uint (posYArr s' ! pickedSlot e w)
       \<and> uint (posYArr s' ! pickedSlot e w) < uint screenLength - uint spriteSize - 100
       \<and> uint screenWidth - uint spriteSize = 208
       \<and> uint screenLength - uint spriteSize - 100 = 188
       \<and> onScreen s' ! pickedSlot e w
       \<and> tft w' = tft w @ [(instant w' - 2, DrawBMP ''/pattern/heart.bmp''
                             (posXArr s' ! pickedSlot e w) (posYArr s' ! pickedSlot e w))]"
proof -
  from spriteTick_placed [OF assms] have
    b: "in_bounds (posXArr s' ! pickedSlot e w) (posYArr s' ! pickedSlot e w)"
    and rest: "onScreen s' ! pickedSlot e w"
      "tft w' = tft w @ [(instant w' - 2, DrawBMP ''/pattern/heart.bmp''
                           (posXArr s' ! pickedSlot e w) (posYArr s' ! pickedSlot e w))]"
    by simp_all
  from in_bounds_uint [OF b] rest show ?thesis
    by (simp add: screenWidth_def screenLength_def spriteSize_def)
qed

theorem placement_boundary_witness:
  "sized one_sprite \<and> \<not> onScreen one_sprite ! pickedSlot calm_board power_on
   \<and> spriteTick (Suc (Suc 0)) calm_board one_sprite power_on =
       Ret (Completed two_sprites) after_place
   \<and> pickedSlot calm_board power_on = 3
   \<and> posXArr two_sprites ! 3 = 100 \<and> posYArr two_sprites ! 3 = 100
   \<and> uint (posXArr two_sprites ! 3) < 208 \<and> uint (posYArr two_sprites ! 3) < 188"
proof -
  have free: "\<not> onScreen one_sprite ! pickedSlot calm_board power_on"
    by (simp add: demo_picks one_sprite_def)
  from placement_boundary [OF sized_one_sprite free demo_place] sized_one_sprite free demo_place
  show ?thesis
    by (simp add: demo_picks two_sprites_def)
qed

text \<open>
  C6. When two completed ticks in a row select the same slot, the second gives the
  slot the visibility it had before the first: the first tick inverts the flag, and
  the second inverts it again.
\<close>

theorem toggle_round_trip:
  assumes "sized s"
    and "spriteTick n e s w = Ret (Completed s1) w1"
    and "spriteTick m e s1 w2 = Ret (Completed s2) w3"
    and "pickedSlot e w2 = pickedSlot e w"
  shows "onScreen s1 ! pickedSlot e w = (\<not> onScreen s ! pickedSlot e w)
       \<and> onScreen s2 ! pickedSlot e w = onScreen s ! pickedSlot e w"
proof -
  have len: "pickedSlot e w < length (onScreen s)"
    using assms(1) pickedSlot_less [of e w] by (simp add: sized_def)
  have s1: "onScreen s1 = (onScreen s)[pickedSlot e w := \<not> onScreen s ! pickedSlot e w]"
    by (rule spriteTick_toggles [OF assms(1,2)])
  have "sized s1"
    using spriteTick_sized [OF assms(1,2)] by simp
  from spriteTick_toggles [OF this assms(3)] assms(4)
  have s2: "onScreen s2 = (onScreen s1)[pickedSlot e w := \<not> onScreen s1 ! pickedSlot e w]"
    by simp
  from s1 s2 len show ?thesis
    by simp
qed

theorem toggle_round_trip_witness:
  "sized one_sprite
   \<and> spriteTick (Suc (Suc 0)) calm_board one_sprite power_on =
       Ret (Completed two_sprites) after_place
   \<and> spriteTick 0 calm_board two_sprites after_place = Ret (Completed erased_sprites) after_erase
   \<and> pickedSlot calm_board after_place = pickedSlot calm_board power_on
   \<and> \<not> onScreen one_sprite ! 3 \<and> onScreen two_sprites ! 3 \<and> \<not> onScreen erased_sprites ! 3"
proof -
  have same: "pickedSlot calm_board after_place = pickedSlot calm_board power_on"
    by (simp add: demo_picks)
  from toggle_round_trip [OF sized_one_sprite demo_place demo_erase same]
    sized_one_sprite demo_place demo_erase same
  show ?thesis
    by (simp add: demo_picks one_sprite_def)
qed

text \<open>
  C9. No visible sprite reaches the bottom message, which \<^verbatim>\<open>patternMode\<close> draws at
  row 220, right after clearing the screen: the slots start empty, and after every tick
  every visible slot has \<open>y \<le> 187\<close>, so that the last of its 32 rows is at most
  row 218.
\<close>

theorem message_band_clear:
  "(\<exists>w1. patternMode 0 e w = Busy w1
       \<and> tft w1 = tft w @ [(instant w, FillScreen BLACK),
                            (instant w + 1, DrawBMP ''/pattern/bottom-message.bmp'' (- 5) 220)])
   \<and> clear_of_message init_sprites
   \<and> (sized s \<and> clear_of_message s \<and> spriteTick n e s w = Ret t w'
        \<longrightarrow> clear_of_message (slots t))
   \<and> (reachable e s \<longrightarrow> clear_of_message s)"
  using patternMode_message clear_of_message_init spriteTick_clear_of_message
    reachable_invariants
  by blast

theorem message_band_clear_witness:
  "sized one_sprite \<and> clear_of_message one_sprite
   \<and> spriteTick (Suc (Suc 0)) calm_board one_sprite power_on =
       Ret (Completed two_sprites) after_place
   \<and> clear_of_message two_sprites
   \<and> onScreen two_sprites ! 3 \<and> uint (posYArr two_sprites ! 3) + uint spriteSize - 1 = 131
   \<and> reachable calm_board first_sprite \<and> clear_of_message first_sprite"
proof -
  have c: "clear_of_message one_sprite"
    by (simp add: clear_of_message_def one_sprite_def maxSprites_def spriteSize_def
        atLeastLessThan_upt upt_10)
  from message_band_clear [of calm_board power_on one_sprite "Suc (Suc 0)"
      "Completed two_sprites" after_place]
    message_band_clear [of calm_board _ first_sprite]
    sized_one_sprite c demo_place reachable_first_sprite
  show ?thesis
    by (simp add: two_sprites_def spriteSize_def)
qed

text \<open>
  C10. The centred display draws whatever the dimension query reports: when the query
  fails and leaves \<open>width\<close> and \<open>height\<close> at their initial 0, the image is still drawn,
  at \<open>(screenWidth / 2, screenLength / 2) = (120, 160)\<close>, and both statuses are only
  printed.
\<close>

theorem failed_lookup_still_draws:
  assumes "leaves_outputs_on_failure e"
    and "fst (bmpDimensions e filename 0 0) \<noteq> IMAGE_SUCCESS"
  shows "snd (bmpDimensions e filename 0 0) = (0, 0)
       \<and> tft (displayImageTFT e filename w) = tft w @ [(instant w + 2, DrawBMP filename 120 160)]
       \<and> uint screenWidth div 2 = 120 \<and> uint screenLength div 2 = 160
       \<and> serial (displayImageTFT e filename w) =
           serial w @ [PrintStatus (fst (bmpDimensions e filename 0 0)),
                       PrintStatus (drawBMP e filename 120 160)]"
proof -
  from assms have out: "snd (bmpDimensions e filename 0 0) = (0, 0)"
    by (simp add: leaves_outputs_on_failure_def)
  then have "bmpDimensions e filename 0 0 = (fst (bmpDimensions e filename 0 0), 0, 0)"
    by (metis prod.collapse)
  from displayImageTFT_output [OF this, of w] have
    "tft (displayImageTFT e filename w) = tft w @ [(instant w + 2, DrawBMP filename 120 160)]"
    "serial (displayImageTFT e filename w) =
       serial w @ [PrintStatus (fst (bmpDimensions e filename 0 0)),
                   PrintStatus (drawBMP e filename 120 160)]"
    by (simp_all only: centre_of_screen)
  moreover have "uint screenWidth div 2 = 120" "uint screenLength div 2 = 160"
    by (simp_all add: screenWidth_def screenLength_def)
  ultimately show ?thesis
    using out by simp
qed

theorem failed_lookup_still_draws_witness:
  "leaves_outputs_on_failure unreadable_board
   \<and> bmpDimensions unreadable_board ''/a.bmp'' 0 0 = (IMAGE_ERR_FILE_NOT_FOUND, 0, 0)
   \<and> tft (displayImageTFT unreadable_board ''/a.bmp'' power_on) =
       [(2, DrawBMP ''/a.bmp'' 120 160)]
   \<and> serial (displayImageTFT unreadable_board ''/a.bmp'' power_on) =
       [PrintStatus IMAGE_ERR_FILE_NOT_FOUND, PrintStatus IMAGE_ERR_FILE_NOT_FOUND]"
proof -
  have c: "leaves_outputs_on_failure unreadable_board"
    by (simp add: leaves_outputs_on_failure_def unreadable_board_def board_def)
  have f: "bmpDimensions unreadable_board ''/a.bmp'' 0 0 = (IMAGE_ERR_FILE_NOT_FOUND, 0, 0)"
    "drawBMP unreadable_board ''/a.bmp'' 120 160 = IMAGE_ERR_FILE_NOT_FOUND"
    by (simp_all add: unreadable_board_def board_def)
  then have "fst (bmpDimensions unreadable_board ''/a.bmp'' 0 0) \<noteq> IMAGE_SUCCESS"
    by simp
  from failed_lookup_still_draws [OF c this, of power_on] c f show ?thesis
    by (simp add: power_on_def)
qed


text \<open>
  C8. When the card does not mount, \<^verbatim>\<open>setup\<close> never returns: whatever the budget and
  whatever the button does, the sketch is still inside \<^verbatim>\<open>setup\<close>, the display shows the
  error message and nothing else, the state is unchanged, and \<^verbatim>\<open>loop\<close> (hence the
  slideshow and the pattern mode) has not run.
\<close>

theorem mount_failure_terminal:
  assumes "\<not> sdBegin e"
  shows "\<exists>w'. setup_sketch n e w = Busy w' \<and> sketch k n e w = Busy w'
        \<and> tft w' = tft w @ error_screen (instant w)
        \<and> serial w' = serial w @ [SerialBegin 9600, Print ''Initializing filesystem...'',
                                    Println ''SD begin() failed'']
        \<and> currentState w' = currentState w \<and> prevStateChange w' = prevStateChange w
        \<and> instant w' = instant w + 12 + n"
proof -
  from setup_sketch_no_card [OF assms, of n w] obtain w' where
    w': "setup_sketch n e w = Busy w'"
      "tft w' = tft w @ error_screen (instant w)"
      "serial w' = serial w @ [SerialBegin 9600, Print ''Initializing filesystem...'',
                                 Println ''SD begin() failed'']"
      "currentState w' = currentState w" "prevStateChange w' = prevStateChange w"
      "instant w' = instant w + 12 + n"
    by blast
  then have "sketch k n e w = Busy w'"
    by (simp add: sketch_def)
  with w' show ?thesis
    by blast
qed

theorem mount_failure_terminal_witness:
  "\<not> sdBegin no_card_board \<and> isr no_card_board 20
   \<and> (\<exists>w'. sketch 3 30 no_card_board power_on = Busy w'
         \<and> tft w' = error_screen 0 \<and> currentState w' = 0 \<and> instant w' = 42)"
proof -
  have a: "\<not> sdBegin no_card_board" "isr no_card_board 20"
    by (simp_all add: no_card_board_def board_def)
  from mount_failure_terminal [OF a(1), of 30 power_on 3] obtain w' where
    "sketch 3 30 no_card_board power_on = Busy w'"
    "tft w' = tft power_on @ error_screen (instant power_on)"
    "currentState w' = currentState power_on" "instant w' = instant power_on + 12 + 30"
    by blast
  then have "sketch 3 30 no_card_board power_on = Busy w'
      \<and> tft w' = error_screen 0 \<and> currentState w' = 0 \<and> instant w' = 42"
    by (simp add: power_on_def)
  with a show ?thesis
    by blast
qed

text \<open>
  C3. A signal that a call of \<^verbatim>\<open>loop\<close> finds raised is cleared by that call, whether
  or not the state changes. But two signals raised less than 50 ms apart can change the
  state twice: the 50 ms are counted from the time stamp of the last change to the
  moment \<^verbatim>\<open>loop\<close> finds the flag up, not between the signals. On \<open>bouncy_board\<close> the
  button's edge arrives in instants 8 and 12, four milliseconds apart. The second call
  of \<^verbatim>\<open>loop\<close> accepts the first edge and enters the pattern mode, whose first call to
  the display lasts 61 ms; the mode returns on the second edge, and the third call of
  \<^verbatim>\<open>loop\<close> finds it 66 ms after the time stamp of the first change and changes the
  state again.
\<close>

theorem bounce_changes_state_twice:
  "{k. isr bouncy_board k} = {8, 12}
   \<and> clock bouncy_board 12 - clock bouncy_board 8 = 4
   \<and> loops 1 2 bouncy_board power_on = Ret () bounce_seen
   \<and> changeButtonState bounce_seen \<and> transitions bounce_seen = 0
   \<and> loops 2 2 bouncy_board power_on = Ret () bounce_again
   \<and> changeButtonState bounce_again \<and> transitions bounce_again = 1
   \<and> prevStateChange bounce_again = clock bouncy_board 11
   \<and> clock bouncy_board (instant bounce_again) - prevStateChange bounce_again = 66
   \<and> transitions (stateChange bouncy_board bounce_again) = 2
   \<and> \<not> changeButtonState (stateChange bouncy_board bounce_again)
   \<and> currentState power_on = 0 \<and> currentState bounce_again = 1
   \<and> currentState (stateChange bouncy_board bounce_again) = 0"
proof -
  have "{k. isr bouncy_board k} = {8, 12}"
    by (auto simp: bouncy_board_def board_def)
  moreover have "clock bouncy_board 12 - clock bouncy_board 8 = 4"
    "prevStateChange bounce_again = clock bouncy_board 11"
    "clock bouncy_board (instant bounce_again) - prevStateChange bounce_again = 66"
    by (simp_all add: bouncy_board_def board_def bounce_again_def power_on_def)
  moreover have "transitions bounce_seen = 0" "transitions bounce_again = 1"
    "currentState power_on = 0" "currentState bounce_again = 1"
    "changeButtonState bounce_seen"
    by (simp_all add: transitions_def bounce_seen_def bounce_again_def power_on_def)
  moreover have up: "changeButtonState bounce_again"
    and late: "50 \<le> clock bouncy_board (instant bounce_again) - prevStateChange bounce_again"
    by (simp_all add: bouncy_board_def board_def bounce_again_def power_on_def)
  moreover have "\<not> isr bouncy_board (instant bounce_again + 2)"
    by (simp add: bouncy_board_def board_def bounce_again_def power_on_def)
  with stateChange_accept(1,2,4) [OF up late] \<open>transitions bounce_again = 1\<close>
    \<open>currentState bounce_again = 1\<close>
  have "transitions (stateChange bouncy_board bounce_again) = 2"
    "currentState (stateChange bouncy_board bounce_again) = 0"
    "\<not> changeButtonState (stateChange bouncy_board bounce_again)"
    by (simp_all add: maxStates_def)
  ultimately show ?thesis
    using demo_bounce_seen demo_bounce_again by simp
qed

text \<open>
  C4 holds while the slideshow waits between two entries and fails in the delay after
  the last one. On \<open>waiting_board\<close> the button's edge arrives in instant 20, while the
  second image is shown, and the function returns in instant 22 without showing the
  third. On \<open>late_board\<close> it arrives in instant 36, during the last delay: the function
  polls on and returns in instant 42, when the whole interval has passed.
\<close>

theorem last_delay_ignores_button:
  "{k. isr waiting_board k} = {20}
   \<and> displayAllImagesDir 20 waiting_board power_on = Ret () waiting_end
   \<and> instant waiting_end = 22 \<and> changeButtonState waiting_end
   \<and> map snd (tft waiting_end) = [DrawBMP ''/a.bmp'' 0 0, DrawBMP ''/b.bmp'' 0 0]
   \<and> {k. isr late_board k} = {36}
   \<and> displayAllImagesDir 20 late_board power_on = Ret () late_end
   \<and> instant late_end = 42 \<and> changeButtonState late_end
   \<and> tft late_end =
       [(6, DrawBMP ''/a.bmp'' 0 0), (15, DrawBMP ''/b.bmp'' 0 0), (30, DrawBMP ''/c.bmp'' 0 0)]
   \<and> clock late_board 42 - clock late_board 36 = 3000"
proof -
  have "{k. isr waiting_board k} = {20}" "{k. isr late_board k} = {36}"
    by (auto simp: waiting_board_def late_board_def board_def)
  moreover have "clock late_board 42 - clock late_board 36 = 3000"
    by (simp add: late_board_def board_def)
  ultimately show ?thesis
    using demo_waiting demo_late
    by (simp add: waiting_end_def late_end_def power_on_def)
qed

text \<open>
  C7. The card holds the entries A, B, C, whose names fit the buffer, and the button is
  never pressed. The clock reads the time \<open>c k\<close> (in milliseconds, cut to 32 bits) at
  instant \<open>k\<close>; time does not run backwards, goes on, and no call lasts longer than \<open>d\<close>
  milliseconds. Then, with a budget that is large enough, the slideshow returns, having
  drawn A, B and C in this order and nothing else, and with \<open>T = slideshowRefreshTime\<close>
  and \<open>a\<close> the time at which A is drawn:

  \<^item> A is drawn at once, after six calls, at most \<open>6 d\<close> after the start and before the
    clock is ever compared;
  \<^item> B is drawn between \<open>a + T - 4 d\<close> and \<open>a + T + 11 d\<close>;
  \<^item> C is drawn at least \<open>T\<close> after B, and no later than \<open>a + 2 T + 20 d\<close>;
  \<^item> the function returns on a reading of the clock at least \<open>T\<close> after C was drawn, and
    no later than \<open>a + 3 T + 25 d\<close>: the last image gets its full interval.

  The deviations from \<open>T\<close>, \<open>2 T\<close> and \<open>3 T\<close> are the durations of the calls in between:
  the time stamp \<open>time_1\<close> is taken before A is drawn and after B and C are.
\<close>

theorem slideshow_timing:
  assumes files: "files e = [A, B, C]"
    and fits: "length A < unat nameLengthMax" "length B < unat nameLengthMax"
      "length C < unat nameLengthMax"
    and down: "\<not> changeButtonState w" and quiet: "\<forall>k. \<not> isr e k"
    and clock: "\<forall>k. clock e k = word_of_nat (c k)"
    and mono: "\<forall>k. c k \<le> c (Suc k)" and step: "\<forall>k. c (Suc k) \<le> c k + d"
    and goes: "\<forall>t. \<exists>k. t \<le> c k"
    and small: "nat slideshowRefreshTime + 7 * d < 2 ^ 32"
  shows "\<exists>N iB iC iR.
           (\<forall>n\<ge>N. \<exists>w'. displayAllImagesDir n e w = Ret () w'
               \<and> tft w' = tft w @ [(instant w + 6, centred e (rootDir @ A)),
                                    (iB, centred e (rootDir @ B)),
                                    (iC, centred e (rootDir @ C))]
               \<and> instant w' = iR + 1
               \<and> \<not> changeButtonState w')
           \<and> c (instant w + 6) \<le> c (instant w) + 6 * d
           \<and> c (instant w + 6) + nat slideshowRefreshTime \<le> c iB + 4 * d
           \<and> c iB \<le> c (instant w + 6) + nat slideshowRefreshTime + 11 * d
           \<and> c iB + nat slideshowRefreshTime \<le> c iC
           \<and> c iC \<le> c (instant w + 6) + 2 * nat slideshowRefreshTime + 20 * d
           \<and> c iC + nat slideshowRefreshTime \<le> c iR
           \<and> c iR \<le> c (instant w + 6) + 3 * nat slideshowRefreshTime + 25 * d"
proof -
  from small have small': "4000 + 7 * d < (2::nat) ^ 32"
    by (simp add: slideshowRefreshTime_def)
  note polls = first_poll_exists [OF clock mono step goes _ _ _ small']
  have "\<exists>j. first_poll e (instant w + 9) (clock e (instant w + 2)) j
          \<and> c (instant w + 2) + 4000 \<le> c (instant w + 9 + 2 * j)
          \<and> c (instant w + 9 + 2 * j) \<le> c (instant w + 2) + 4000 + 7 * d"
    by (rule polls) simp_all
  then obtain jB where
    pollB: "first_poll e (instant w + 9) (clock e (instant w + 2)) jB"
    and lowB: "c (instant w + 2) + 4000 \<le> c (instant w + 9 + 2 * jB)"
    and upB: "c (instant w + 9 + 2 * jB) \<le> c (instant w + 2) + 4000 + 7 * d"
    by blast
  define pB where "pB = instant w + 9 + 2 * jB"
  have "\<exists>j. first_poll e (pB + 9) (clock e (pB + 7)) j
          \<and> c (pB + 7) + 4000 \<le> c (pB + 9 + 2 * j)
          \<and> c (pB + 9 + 2 * j) \<le> c (pB + 7) + 4000 + 2 * d"
    by (rule polls) simp_all
  then obtain jC where
    pollC: "first_poll e (pB + 9) (clock e (pB + 7)) jC"
    and lowC: "c (pB + 7) + 4000 \<le> c (pB + 9 + 2 * jC)"
    and upC: "c (pB + 9 + 2 * jC) \<le> c (pB + 7) + 4000 + 2 * d"
    by blast
  define pC where "pC = pB + 9 + 2 * jC"
  have "\<exists>j. first_poll e (pC + 9) (clock e (pC + 7)) j
          \<and> c (pC + 7) + 4000 \<le> c (pC + 9 + 2 * j)
          \<and> c (pC + 9 + 2 * j) \<le> c (pC + 7) + 4000 + 2 * d"
    by (rule polls) simp_all
  then obtain jR where
    pollR: "first_poll e (pC + 9) (clock e (pC + 7)) jR"
    and lowR: "c (pC + 7) + 4000 \<le> c (pC + 9 + 2 * jR)"
    and upR: "c (pC + 9 + 2 * jR) \<le> c (pC + 7) + 4000 + 2 * d"
    by blast
  define pR where "pR = pC + 9 + 2 * jR"
  define N where "N = max (jB + jC + 3) (jR + 1)"
  define a where "a = c (instant w + 6)"
  define tA where "tA = c (instant w + 2)"
  have run: "\<exists>w'. displayAllImagesDir n e w = Ret () w'
               \<and> tft w' = tft w @ [(instant w + 6, centred e (rootDir @ A)),
                                    (pB + 4, centred e (rootDir @ B)),
                                    (pC + 4, centred e (rootDir @ C))]
               \<and> instant w' = pR + 1
               \<and> \<not> changeButtonState w'" if "N \<le> n" for n
  proof -
    from that have budget: "jB + jC + 3 \<le> n" "jR + 1 \<le> n"
      by (simp_all add: N_def)
    from slideshow_run [OF files down quiet fits pollB pB_def pollC pC_def pollR budget]
    show ?thesis
      by (simp add: pR_def)
  qed
  have A0: "a \<le> c (instant w) + 6 * d"
    unfolding a_def by (rule time_step [OF step])
  have six: "instant w + 6 = instant w + 2 + 4"
    by simp
  have A1: "tA \<le> a"
    unfolding a_def tA_def six by (rule time_mono [OF mono])
  have A2: "a \<le> tA + 4 * d"
    unfolding a_def tA_def six by (rule time_step [OF step])
  have B0: "tA + 4000 \<le> c pB" "c pB \<le> tA + 4000 + 7 * d"
    using lowB upB by (simp_all add: pB_def tA_def)
  have B1: "c pB \<le> c (pB + 4)" "c (pB + 4) \<le> c pB + 4 * d"
    by (rule time_mono [OF mono], rule time_step [OF step])
  have seven: "k + 7 = k + 4 + 3" for k :: nat
    by simp
  have B2: "c (pB + 4) \<le> c (pB + 7)"
    unfolding seven by (rule time_mono [OF mono])
  have B3: "c (pB + 7) \<le> c pB + 7 * d"
    by (rule time_step [OF step])
  have C0: "c (pB + 7) + 4000 \<le> c pC" "c pC \<le> c (pB + 7) + 4000 + 2 * d"
    using lowC upC by (simp_all add: pC_def)
  have C1: "c pC \<le> c (pC + 4)" "c (pC + 4) \<le> c pC + 4 * d"
    by (rule time_mono [OF mono], rule time_step [OF step])
  have C2: "c (pC + 4) \<le> c (pC + 7)"
    unfolding seven by (rule time_mono [OF mono])
  have C3: "c (pC + 7) \<le> c pC + 7 * d"
    by (rule time_step [OF step])
  have R0: "c (pC + 7) + 4000 \<le> c pR" "c pR \<le> c (pC + 7) + 4000 + 2 * d"
    using lowR upR by (simp_all add: pR_def)
  have T: "nat slideshowRefreshTime = 4000"
    by (simp add: slideshowRefreshTime_def)
  have "a + 4000 \<le> c (pB + 4) + 4 * d"
    using A2 B0 B1 by linarith
  moreover have "c (pB + 4) \<le> a + 4000 + 11 * d"
    using A1 B0 B1 by linarith
  moreover have "c (pB + 4) + 4000 \<le> c (pC + 4)"
    using B2 C0 C1 by linarith
  moreover have "c (pC + 4) \<le> a + 2 * 4000 + 20 * d"
    using A1 B0 B3 C0 C1 by linarith
  moreover have "c (pC + 4) + 4000 \<le> c pR"
    using C2 R0 by linarith
  moreover have "c pR \<le> a + 3 * 4000 + 25 * d"
    using A1 B0 B3 C0 C3 R0 by linarith
  ultimately have
    "c (instant w + 6) \<le> c (instant w) + 6 * d
     \<and> c (instant w + 6) + nat slideshowRefreshTime \<le> c (pB + 4) + 4 * d
     \<and> c (pB + 4) \<le> c (instant w + 6) + nat slideshowRefreshTime + 11 * d
     \<and> c (pB + 4) + nat slideshowRefreshTime \<le> c (pC + 4)
     \<and> c (pC + 4) \<le> c (instant w + 6) + 2 * nat slideshowRefreshTime + 20 * d
     \<and> c (pC + 4) + nat slideshowRefreshTime \<le> c pR
     \<and> c pR \<le> c (instant w + 6) + 3 * nat slideshowRefreshTime + 25 * d"
    using A0 unfolding T a_def by simp
  with run show ?thesis
    by blast
qed

theorem slideshow_timing_witness:
  "files steady_board = [''a.bmp'', ''b.bmp'', ''c.bmp'']
   \<and> length ''a.bmp'' < unat nameLengthMax \<and> length ''b.bmp'' < unat nameLengthMax
   \<and> length ''c.bmp'' < unat nameLengthMax
   \<and> \<not> changeButtonState power_on \<and> (\<forall>k. \<not> isr steady_board k)
   \<and> (\<forall>k. clock steady_board k = word_of_nat k)
   \<and> nat slideshowRefreshTime + 7 * 1 < 2 ^ 32
   \<and> (\<exists>N iB iC iR.
         (\<forall>n\<ge>N. \<exists>w'. displayAllImagesDir n steady_board power_on = Ret () w'
             \<and> tft w' = [(6, DrawBMP ''/a.bmp'' 0 0), (iB, DrawBMP ''/b.bmp'' 0 0),
                         (iC, DrawBMP ''/c.bmp'' 0 0)]
             \<and> instant w' = iR + 1
             \<and> \<not> changeButtonState w')
         \<and> 6 + 4000 \<le> iB + 4 \<and> iB \<le> 6 + 4000 + 11
         \<and> iB + 4000 \<le> iC \<and> iC \<le> 6 + 2 * 4000 + 20
         \<and> iC + 4000 \<le> iR \<and> iR \<le> 6 + 3 * 4000 + 25)
   \<and> (\<exists>w'. displayAllImagesDir 4000 steady_board power_on = Ret () w'
         \<and> tft w' = [(6, DrawBMP ''/a.bmp'' 0 0), (4007, DrawBMP ''/b.bmp'' 0 0),
                     (8014, DrawBMP ''/c.bmp'' 0 0)]
         \<and> instant w' = 12017 + 1 \<and> \<not> changeButtonState w')"
proof -
  have files: "files steady_board = [''a.bmp'', ''b.bmp'', ''c.bmp'']"
    and quiet: "\<forall>k. \<not> isr steady_board k"
    by (simp_all add: steady_board_def board_def)
  have fits: "length ''a.bmp'' < unat nameLengthMax" "length ''b.bmp'' < unat nameLengthMax"
    "length ''c.bmp'' < unat nameLengthMax"
    by (simp_all add: nameLengthMax_def)
  have w: "\<not> changeButtonState power_on" "instant power_on = 0" "tft power_on = []"
    by (simp_all add: power_on_def)
  have clock: "\<forall>k. clock steady_board k = word_of_nat ((\<lambda>k. k) k)"
    by (simp add: steady_clock)
  have mono: "\<forall>k. (\<lambda>k. k) k \<le> (\<lambda>k. k) (Suc k)"
    and step: "\<forall>k. (\<lambda>k. k) (Suc k) \<le> (\<lambda>k. k) k + (1::nat)"
    and goes: "\<forall>t::nat. \<exists>k. t \<le> (\<lambda>k. k) k"
    by auto
  have small: "nat slideshowRefreshTime + 7 * 1 < 2 ^ 32"
    by (simp add: slideshowRefreshTime_def)
  have T: "nat slideshowRefreshTime = 4000"
    by (simp add: slideshowRefreshTime_def)
  from slideshow_timing [OF files fits w(1) quiet clock mono step goes small]
  have general: "\<exists>N iB iC iR.
         (\<forall>n\<ge>N. \<exists>w'. displayAllImagesDir n steady_board power_on = Ret () w'
             \<and> tft w' = [(6, DrawBMP ''/a.bmp'' 0 0), (iB, DrawBMP ''/b.bmp'' 0 0),
                         (iC, DrawBMP ''/c.bmp'' 0 0)]
             \<and> instant w' = iR + 1
             \<and> \<not> changeButtonState w')
         \<and> 6 + 4000 \<le> iB + 4 \<and> iB \<le> 6 + 4000 + 11
         \<and> iB + 4000 \<le> iC \<and> iC \<le> 6 + 2 * 4000 + 20
         \<and> iC + 4000 \<le> iR \<and> iR \<le> 6 + 3 * 4000 + 25"
    by (simp add: w steady_centred T)
  have B: "first_poll steady_board (instant power_on + 9)
             (clock steady_board (instant power_on + 2)) 1997"
    using steady_polls(1) by (simp add: w numeral_2_eq_2)
  have pB: "4003 = instant power_on + 9 + 2 * (1997::nat)"
    by (simp add: w)
  have C: "first_poll steady_board (4003 + 9) (clock steady_board (4003 + 7)) 1999"
    using steady_polls(2) by simp
  have pC: "8010 = 4003 + 9 + 2 * (1999::nat)"
    by simp
  have R: "first_poll steady_board (8010 + 9) (clock steady_board (8010 + 7)) 1999"
    using steady_polls(3) by simp
  have budget: "1997 + 1999 + 3 \<le> (4000::nat)" "1999 + 1 \<le> (4000::nat)"
    by simp_all
  from slideshow_run [OF files w(1) quiet fits B pB C pC R budget]
  obtain w' where
    "displayAllImagesDir 4000 steady_board power_on = Ret () w'"
    "tft w' = tft power_on @ [(instant power_on + 6, centred steady_board (rootDir @ ''a.bmp'')),
                              (4003 + 4, centred steady_board (rootDir @ ''b.bmp'')),
                              (8010 + 4, centred steady_board (rootDir @ ''c.bmp''))]"
    "instant w' = 8010 + 9 + 2 * 1999 + 1" "\<not> changeButtonState w'"
    by blast
  then have "displayAllImagesDir 4000 steady_board power_on = Ret () w'
      \<and> tft w' = [(6, DrawBMP ''/a.bmp'' 0 0), (4007, DrawBMP ''/b.bmp'' 0 0),
                  (8014, DrawBMP ''/c.bmp'' 0 0)]
      \<and> instant w' = 12017 + 1 \<and> \<not> changeButtonState w'"
    by (simp add: w steady_centred)
  then have run: "\<exists>w'. displayAllImagesDir 4000 steady_board power_on = Ret () w'
      \<and> tft w' = [(6, DrawBMP ''/a.bmp'' 0 0), (4007, DrawBMP ''/b.bmp'' 0 0),
                  (8014, DrawBMP ''/c.bmp'' 0 0)]
      \<and> instant w' = 12017 + 1 \<and> \<not> changeButtonState w'"
    by blast
  from files fits w(1) quiet small general run show ?thesis
    by (simp only: steady_clock simp_thms)
qed

end
